(* ===== verification/Prelude.thy ===== *)
theory Prelude
  imports Main "HOL-Library.Word" "HOL-Library.AList" "HOL-Library.Sublist"
begin

unbundle bit_operations_syntax

text \<open>
  What every component shares: the machine types of the Rust code, a panic as a value,
  readings of the clocks, little-endian encoding of a \<open>u32\<close>, Rust's \<open>drain\<close>, \<open>split\<close> and
  \<open>starts_with\<close>, and the \<open>HashMap\<close> interface (a locale, interpreted on association lists).
\<close>

subsection \<open>Collections of facts\<close>

named_theorems stream_defs \<open>one-line updates of a stream, unfolded to the record\<close>
named_theorems listener_defs \<open>definitions of the listener's and the transport's handlers\<close>

subsection \<open>Machine types\<close>

type_synonym byte = "8 word"
type_synonym bytes = "byte list"
type_synonym u32 = "32 word"
type_synonym u64 = "64 word"

text \<open>
  A computation that may panic. \<open>Result<T, E>\<close> is the sum \<open>'e + 'a\<close>, with \<open>Inl\<close> for
  \<open>Err\<close>; a panic is not an \<open>Err\<close> and has its own constructor.
\<close>

datatype 'a run = Return 'a | Panic string

fun run_bind :: "'a run \<Rightarrow> ('a \<Rightarrow> 'b run) \<Rightarrow> 'b run" where
  "run_bind (Return x) f = f x"
| "run_bind (Panic msg) f = Panic msg"

lemma run_bind_Return_iff:
  "run_bind r f = Return y \<longleftrightarrow> (\<exists>a. r = Return a \<and> f a = Return y)"
  by (cases r) auto

fun no_panic :: "'a run \<Rightarrow> bool" where
  "no_panic (Return x) = True"
| "no_panic (Panic msg) = False"

lemma no_panic_iff: "no_panic r \<longleftrightarrow> (\<exists>x. r = Return x)"
  by (cases r) auto

text \<open>
  Clock readings in nanoseconds. \<open>Instant\<close> and \<open>DateTime<Utc>\<close> are signed 64-bit seconds
  with nanoseconds on the platforms the program runs on, so subtracting a few seconds
  does not underflow; \<open>duration_since\<close> of a later instant is zero.
\<close>

type_synonym instant = int
type_synonym utc = int

definition secs :: "nat \<Rightarrow> int" where
  "secs n = int n * 1000000000"

definition duration_since :: "instant \<Rightarrow> instant \<Rightarrow> int" where
  "duration_since now earlier = max 0 (now - earlier)"

lemma secs_mono [simp]: "secs a \<le> secs b \<longleftrightarrow> a \<le> b" "secs a < secs b \<longleftrightarrow> a < b"
  by (simp_all add: secs_def)

lemma secs_nonneg [simp]: "0 \<le> secs a"
  by (simp add: secs_def)

lemma secs_add: "secs (a + b) = secs a + secs b"
  by (simp add: secs_def algebra_simps)

lemma duration_since_ge:
  "0 < d \<Longrightarrow> duration_since now t \<ge> d \<longleftrightarrow> t + d \<le> now"
  by (auto simp: duration_since_def)

subsection \<open>Little-endian \<open>u32\<close>\<close>

definition u32_to_le_bytes :: "u32 \<Rightarrow> bytes" where
  "u32_to_le_bytes x =
     [ucast x, ucast (drop_bit 8 x), ucast (drop_bit 16 x), ucast (drop_bit 24 x)]"

definition u32_from_le_bytes :: "byte \<Rightarrow> byte \<Rightarrow> byte \<Rightarrow> byte \<Rightarrow> u32" where
  "u32_from_le_bytes b0 b1 b2 b3 =
     ucast b0 OR push_bit 8 (ucast b1) OR push_bit 16 (ucast b2) OR push_bit 24 (ucast b3)"

lemma length_u32_to_le_bytes [simp]: "length (u32_to_le_bytes x) = 4"
  by (simp add: u32_to_le_bytes_def)

lemma u32_le_bits:
  "u32_from_le_bytes (ucast x) (ucast (drop_bit 8 x)) (ucast (drop_bit 16 x))
     (ucast (drop_bit 24 x)) = x"
proof (rule bit_word_eqI)
  fix n assume "n < LENGTH(32)"
  then have n: "n < 8 \<or> 8 \<le> n \<and> n < 16 \<or> 16 \<le> n \<and> n < 24 \<or> 24 \<le> n \<and> n < 32" by auto
  then show "bit (u32_from_le_bytes (ucast x) (ucast (drop_bit 8 x)) (ucast (drop_bit 16 x))
     (ucast (drop_bit 24 x))) n \<longleftrightarrow> bit x n"
    by (auto simp: u32_from_le_bytes_def bit_simps)
qed

lemma u32_le_roundtrip:
  "u32_from_le_bytes (u32_to_le_bytes x ! 0) (u32_to_le_bytes x ! 1)
     (u32_to_le_bytes x ! 2) (u32_to_le_bytes x ! 3) = x"
  by (simp add: u32_to_le_bytes_def u32_le_bits)

subsection \<open>Sequence numbers as words\<close>

text \<open>A \<open>u32\<close> as a position: \<open>of_nat\<close> below the range is read back by \<open>unat\<close>.\<close>

lemma unat_of_nat_u32 [simp]: "n < 4294967296 \<Longrightarrow> unat (of_nat n :: u32) = n"
  by (simp add: unat_of_nat take_bit_nat_eq_self)

lemma u32_of_nat_less_iff:
  "m < 4294967296 \<Longrightarrow> n < 4294967296 \<Longrightarrow> (of_nat m :: u32) < of_nat n \<longleftrightarrow> m < n"
  by (simp add: word_less_nat_alt)

lemma u32_of_nat_le_iff:
  "m < 4294967296 \<Longrightarrow> n < 4294967296 \<Longrightarrow> (of_nat m :: u32) \<le> of_nat n \<longleftrightarrow> m \<le> n"
  by (simp add: word_le_nat_alt)

lemma u32_of_nat_eq_iff:
  "m < 4294967296 \<Longrightarrow> n < 4294967296 \<Longrightarrow> (of_nat m :: u32) = of_nat n \<longleftrightarrow> m = n"
  by (metis unat_of_nat_u32)

lemma u32_of_nat_Suc: "(of_nat n :: u32) + 1 = of_nat (Suc n)"
  by simp

lemma u32_of_nat_add_numeral: "(of_nat n :: u32) + numeral k = of_nat (n + numeral k)"
  by simp

lemma u32_of_nat_unat [simp]: "of_nat (unat (x :: u32)) = x"
  by simp

lemmas u32_of_nat = u32_of_nat_less_iff u32_of_nat_le_iff u32_of_nat_eq_iff

subsection \<open>Strings and byte prefixes\<close>

text \<open>\<open>str::split(':')\<close>: the pieces between the separators, always at least one.\<close>

fun split_on :: "char \<Rightarrow> string \<Rightarrow> string list" where
  "split_on c [] = [[]]"
| "split_on c (x # xs) =
     (if x = c then [] # split_on c xs
      else (case split_on c xs of [] \<Rightarrow> [[x]] | p # ps \<Rightarrow> (x # p) # ps))"

lemma split_on_nonempty [simp]: "split_on c xs \<noteq> []"
  by (cases xs) (auto split: list.splits)

lemma split_on_absent: "c \<notin> set xs \<Longrightarrow> split_on c xs = [xs]"
  by (induction xs) auto

lemma split_on_append:
  "c \<notin> set xs \<Longrightarrow> split_on c (xs @ c # ys) = xs # split_on c ys"
  by (induction xs) (auto split: list.splits)

lemma split_on_pair:
  "c \<notin> set xs \<Longrightarrow> c \<notin> set ys \<Longrightarrow> split_on c (xs @ c # ys) = [xs, ys]"
  by (simp add: split_on_append split_on_absent)

lemma length_split_on: "length (split_on c xs) = Suc (count_list xs c)"
  by (induction xs) (auto split: list.splits)

text \<open>The ASCII bytes of a literal such as \<open>b"DIAL"\<close>.\<close>

definition ascii :: "string \<Rightarrow> bytes" where
  "ascii s = map of_char s"

subsection \<open>The \<open>HashMap\<close> interface\<close>

text \<open>
  \<open>std::collections::HashMap\<close> as its users see it. The provider below is an association
  list with distinct keys; its order stands for the unspecified iteration order.
\<close>

type_synonym ('k, 'v) hashmap = "('k \<times> 'v) list"

definition hm_get :: "'k \<Rightarrow> ('k, 'v) hashmap \<Rightarrow> 'v option" where
  "hm_get k m = map_of m k"

definition hm_insert :: "'k \<Rightarrow> 'v \<Rightarrow> ('k, 'v) hashmap \<Rightarrow> ('k, 'v) hashmap" where
  "hm_insert k v m = AList.update k v m"

definition hm_remove :: "'k \<Rightarrow> ('k, 'v) hashmap \<Rightarrow> ('k, 'v) hashmap" where
  "hm_remove k m = AList.delete k m"

definition hm_retain :: "('k \<Rightarrow> 'v \<Rightarrow> bool) \<Rightarrow> ('k, 'v) hashmap \<Rightarrow> ('k, 'v) hashmap" where
  "hm_retain p m = filter (\<lambda>(k, v). p k v) m"

definition hm_values :: "('k, 'v) hashmap \<Rightarrow> 'v list" where
  "hm_values m = map snd m"

definition hm_wf :: "('k, 'v) hashmap \<Rightarrow> bool" where
  "hm_wf m \<longleftrightarrow> distinct (map fst m)"

locale hash_map =
  fixes get :: "'k \<Rightarrow> 'm \<Rightarrow> 'v option"
    and insert :: "'k \<Rightarrow> 'v \<Rightarrow> 'm \<Rightarrow> 'm"
    and remove :: "'k \<Rightarrow> 'm \<Rightarrow> 'm"
    and retain :: "('k \<Rightarrow> 'v \<Rightarrow> bool) \<Rightarrow> 'm \<Rightarrow> 'm"
    and wf :: "'m \<Rightarrow> bool"
  assumes get_insert: "get k' (insert k v m) = (if k' = k then Some v else get k' m)"
    and get_remove: "get k' (remove k m) = (if k' = k then None else get k' m)"
    and get_retain: "wf m \<Longrightarrow>
      get k (retain p m) = (case get k m of Some v \<Rightarrow> if p k v then Some v else None | None \<Rightarrow> None)"
    and wf_insert: "wf m \<Longrightarrow> wf (insert k v m)"
    and wf_remove: "wf m \<Longrightarrow> wf (remove k m)"
    and wf_retain: "wf m \<Longrightarrow> wf (retain p m)"
begin

lemma get_insert_same [simp]: "get k (insert k v m) = Some v"
  by (simp add: get_insert)

lemma get_insert_other [simp]: "k' \<noteq> k \<Longrightarrow> get k' (insert k v m) = get k' m"
  by (simp add: get_insert)

lemma get_remove_same [simp]: "get k (remove k m) = None"
  by (simp add: get_remove)

lemma get_remove_SomeD: "get k' (remove k m) = Some v \<Longrightarrow> get k' m = Some v \<and> k' \<noteq> k"
  by (auto simp: get_remove split: if_splits)

lemma get_retain_Some:
  "wf m \<Longrightarrow> get k (retain p m) = Some v \<longleftrightarrow> get k m = Some v \<and> p k v"
  by (auto simp: get_retain split: option.splits)

lemma retain_retain:
  "wf m \<Longrightarrow> get k (retain q (retain p m)) = get k (retain (\<lambda>k v. p k v \<and> q k v) m)"
  by (auto simp: get_retain wf_retain split: option.splits)

lemmas map_laws = get_insert get_remove wf_insert wf_remove wf_retain

end

lemma hm_get_filter:
  "distinct (map fst m) \<Longrightarrow> map_of (filter (\<lambda>(k, v). p k v) m) k =
     (case map_of m k of Some v \<Rightarrow> if p k v then Some v else None | None \<Rightarrow> None)"
  by (induction m) (auto split: option.splits simp: map_of_eq_None_iff rev_image_eqI)

lemma distinct_map_fst_filter: "distinct (map fst m) \<Longrightarrow> distinct (map fst (filter P m))"
  by (induction m) auto

interpretation hm: hash_map hm_get hm_insert hm_remove hm_retain hm_wf
proof unfold_locales
  fix m :: "('a \<times> 'b) list" and k k' :: 'a and v :: 'b and p :: "'a \<Rightarrow> 'b \<Rightarrow> bool"
  show "hm_get k' (hm_insert k v m) = (if k' = k then Some v else hm_get k' m)"
    by (simp add: hm_get_def hm_insert_def update_conv)
  show "hm_get k' (hm_remove k m) = (if k' = k then None else hm_get k' m)"
    by (simp add: hm_get_def hm_remove_def delete_conv)
  show "hm_wf m \<Longrightarrow> hm_get k (hm_retain p m) =
      (case hm_get k m of Some v \<Rightarrow> if p k v then Some v else None | None \<Rightarrow> None)"
    by (simp add: hm_wf_def hm_get_def hm_retain_def hm_get_filter)
  show "hm_wf m \<Longrightarrow> hm_wf (hm_insert k v m)"
    by (simp add: hm_wf_def hm_insert_def distinct_update)
  show "hm_wf m \<Longrightarrow> hm_wf (hm_remove k m)"
    by (simp add: hm_wf_def hm_remove_def distinct_delete)
  show "hm_wf m \<Longrightarrow> hm_wf (hm_retain p m)"
    by (simp add: hm_wf_def hm_retain_def distinct_map_fst_filter)
qed

lemma hm_wf_Nil [simp]: "hm_wf []"
  by (simp add: hm_wf_def)

lemma hm_get_Nil [simp]: "hm_get k [] = None"
  by (simp add: hm_get_def)

lemma hm_values_iff: "hm_wf m \<Longrightarrow> v \<in> set (hm_values m) \<longleftrightarrow> (\<exists>k. hm_get k m = Some v)"
  unfolding hm_wf_def hm_values_def hm_get_def
  by (induction m) (force simp: rev_image_eqI)+

lemma hm_insert_twice: "hm_insert k v (hm_insert k w m) = hm_insert k v m"
  unfolding hm_insert_def by (induction m) auto

lemma hm_insert_same: "hm_get k m = Some v \<Longrightarrow> hm_insert k v m = m"
  unfolding hm_insert_def hm_get_def by (induction m) (auto split: if_splits)

lemma length_hm_remove_less: "hm_get k m = Some v \<Longrightarrow> length (hm_remove k m) < length m"
  unfolding hm_get_def hm_remove_def AList.delete_eq
  by (rule length_filter_less [of "(k, v)"]) (auto dest: map_of_SomeD)

end
