(* ===== verification/Veilid_Types.thy ===== *)
theory Veilid_Types
  imports Prelude
begin

text \<open>
  The vocabulary the program takes from its libraries (veilid-core, libp2p, prost) and what
  it asks of them. None of these libraries is under \<open>src/\<close>: their data appear here as opaque
  values, and their functions are fields of two records that every operation using them takes
  as an argument. \<open>ext\<close> holds the pure functions (signatures, protobuf, key and multiaddr
  texts), \<open>veilid_api\<close> the answers of the Veilid node during one operation.
\<close>

subsection \<open>Opaque values\<close>

datatype record_key = RecordKey bytes
datatype node_id = NodeId bytes

text \<open>\<open>CryptoTyped<K>\<close>: a four-letter crypto kind and a key.\<close>

datatype 'k CryptoTyped = CryptoTyped (ct_kind: string) (ct_value: 'k)

text \<open>Veilid's \<open>KeyPair\<close> (a DHT record's owner), libp2p's \<open>Keypair\<close> and \<open>PublicKey\<close>.\<close>

datatype KeyPair = KeyPair (kp_key: bytes) (kp_secret: bytes)
datatype Keypair = Keypair bytes
datatype PublicKey = PublicKey bytes

datatype Target = NodeIdTarget "node_id CryptoTyped" | PrivateRoute bytes

text \<open>A \<open>Multiaddr\<close> is its binary form.\<close>

type_synonym multiaddr = bytes

text \<open>The kind every key of this program has: \<open>"VLD0"\<close>.\<close>

definition VLD0 :: string where
  "VLD0 = ''VLD0''"

text \<open>\<open>std::task::Poll\<close>\<close>

datatype 'a poll = Ready 'a | Pending

text \<open>The wire message, a prost struct.\<close>

record Payload =
  pl_received_seq :: u32
  pl_msg_seq :: u32
  pl_stream_id :: u64
  pl_signature :: bytes
  pl_address :: string
  pl_data :: bytes

subsection \<open>Library functions\<close>

record ext =
  key_encode :: "bytes \<Rightarrow> string"                 \<comment> \<open>\<open>Encodable::encode\<close> of a key\<close>
  key_decode :: "string \<Rightarrow> bytes option"          \<comment> \<open>\<open>RecordKey::try_from\<close>, \<open>NodeId::try_from\<close>\<close>
  typed_to_string :: "string \<Rightarrow> bytes \<Rightarrow> string"  \<comment> \<open>\<open>Display\<close> of a \<open>CryptoTyped\<close>\<close>
  multiaddr_parse :: "string \<Rightarrow> multiaddr option"
  multiaddr_to_string :: "multiaddr \<Rightarrow> string"
  payload_encode :: "Payload \<Rightarrow> bytes"
  payload_decode :: "bytes \<Rightarrow> string + Payload"
  sign :: "Keypair \<Rightarrow> bytes \<Rightarrow> bytes option"      \<comment> \<open>\<open>None\<close> for \<open>Err\<close>\<close>
  public_key :: "Keypair \<Rightarrow> PublicKey"
  verify :: "PublicKey \<Rightarrow> bytes \<Rightarrow> bytes \<Rightarrow> bool"
  encode_protobuf :: "PublicKey \<Rightarrow> bytes"
  try_decode_protobuf :: "bytes \<Rightarrow> PublicKey option"

text \<open>
  Documented behaviour of these functions, as separate named predicates: a property takes
  only the ones it needs.
\<close>

definition key_text_law :: "ext \<Rightarrow> bool" where
  "key_text_law x \<longleftrightarrow>
     (\<forall>k. key_decode x (key_encode x k) = Some k \<and> CHR '':'' \<notin> set (key_encode x k))"

text \<open>
  The unix multiaddrs the program writes parse, and print back as the text they were parsed
  from. Nothing is asked of other texts.
\<close>

definition multiaddr_law :: "ext \<Rightarrow> bool" where
  "multiaddr_law x \<longleftrightarrow>
     (\<forall>prefix \<in> {''/unix/s:'', ''/unix/us:''}. \<forall>k.
        \<exists>m. multiaddr_parse x (prefix @ key_encode x k) = Some m \<and>
          multiaddr_to_string x m = prefix @ key_encode x k)"

definition payload_law :: "ext \<Rightarrow> bool" where
  "payload_law x \<longleftrightarrow> (\<forall>p. payload_decode x (payload_encode x p) = Inr p)"

definition signature_law :: "ext \<Rightarrow> bool" where
  "signature_law x \<longleftrightarrow> (\<forall>kp d s. sign x kp d = Some s \<longrightarrow> verify x (public_key x kp) d s)"

definition signing_law :: "ext \<Rightarrow> bool" where
  "signing_law x \<longleftrightarrow> (\<forall>kp d. sign x kp d \<noteq> None)"

definition public_key_law :: "ext \<Rightarrow> bool" where
  "public_key_law x \<longleftrightarrow> (\<forall>pk. try_decode_protobuf x (encode_protobuf x pk) = Some pk)"

lemmas ext_laws = key_text_law_def multiaddr_law_def payload_law_def signature_law_def
  public_key_law_def signing_law_def

text \<open>All of them: what the messages of one node need to be understood by another.\<close>

definition wire_laws :: "ext \<Rightarrow> bool" where
  "wire_laws x \<longleftrightarrow> payload_law x \<and> key_text_law x \<and> multiaddr_law x \<and> signature_law x \<and>
     signing_law x"

subsection \<open>The Veilid node\<close>

text \<open>
  What \<open>VeilidAPI\<close> and its \<open>RoutingContext\<close> answer while one operation runs; \<open>False\<close> and
  \<open>None\<close> stand for \<open>Err\<close>. \<open>get_dht_value\<close> has both: no answer, or no value at the key.
  The calls an operation makes are part of its result (\<open>api_call\<close>), in order.
\<close>

record veilid_api =
  routing_context :: bool
  with_safety :: bool
  open_dht_record :: "record_key CryptoTyped \<Rightarrow> KeyPair option \<Rightarrow> bool"
  get_dht_value :: "record_key CryptoTyped \<Rightarrow> bytes option option"
  import_remote_private_route :: "bytes \<Rightarrow> bytes option"
  new_custom_private_route :: "(bytes \<times> bytes) option"
  dht_schema :: bool
  create_dht_record :: "(record_key CryptoTyped \<times> bytes \<times> bytes option) option"
  set_dht_value :: "record_key CryptoTyped \<Rightarrow> bytes \<Rightarrow> KeyPair option \<Rightarrow> bool"

datatype safety = SafetyUnsafe | DefaultSafety

datatype api_call =
    AppMessage safety Target bytes
  | NewPrivateRoute
  | CreateDht
  | OpenDht "record_key CryptoTyped" "KeyPair option"
  | GetDht "record_key CryptoTyped"
  | SetDht "record_key CryptoTyped" bytes "KeyPair option"
  | ImportRoute bytes

end
