(* ===== verification/Address.thy ===== *)
theory Address
  imports Veilid_Types "HOL-Library.List_Lexorder" "HOL-Library.Char_ord"
begin

text \<open>
  \<open>src/src/address.rs\<close>: the addresses of nodes, their texts, and how an address becomes a
  Veilid target through the DHT. First the data and the texts, then the three operations
  that talk to the node (\<open>new_safe\<close>, \<open>update_safe\<close>, \<open>to_target\<close>), which return their
  result and the calls they made.
\<close>

subsection \<open>Data\<close>

datatype DHTStatus = DHTNone | DHTActive utc

datatype Address =
    Safe "record_key CryptoTyped" "KeyPair option" DHTStatus
  | Unsafe "node_id CryptoTyped"

definition new_unsafe :: "node_id CryptoTyped \<Rightarrow> Address" where
  "new_unsafe key = Unsafe key"

subsection \<open>Texts\<close>

fun address_text :: "ext \<Rightarrow> Address \<Rightarrow> string" where
  "address_text x (Safe (CryptoTyped kind (RecordKey k)) kp st) = ''/unix/s:'' @ key_encode x k"
| "address_text x (Unsafe (CryptoTyped kind (NodeId k))) = ''/unix/us:'' @ key_encode x k"

text \<open>\<open>to_multiaddr\<close> parses the text it formats and unwraps the result.\<close>

definition to_multiaddr :: "ext \<Rightarrow> Address \<Rightarrow> multiaddr run" where
  "to_multiaddr x a = (case multiaddr_parse x (address_text x a) of
       Some m \<Rightarrow> Return m
     | None \<Rightarrow> Panic ''to_multiaddr: unwrap'')"

text \<open>\<open>TryFrom<String>\<close>\<close>

definition try_from_string :: "ext \<Rightarrow> string \<Rightarrow> string + Address" where
  "try_from_string x addr_str =
     (let parts = split_on (CHR '':'') addr_str in
      if length parts \<noteq> 2 then Inl ''Invalid format''
      else if parts ! 0 = ''/unix/s'' then
        (case key_decode x (parts ! 1) of
           None \<Rightarrow> Inl ''Failed to parse RecordKey''
         | Some k \<Rightarrow> Inr (Safe (CryptoTyped VLD0 (RecordKey k)) None DHTNone))
      else if parts ! 0 = ''/unix/us'' then
        (case key_decode x (parts ! 1) of
           None \<Rightarrow> Inl ''Failed to parse NodeId''
         | Some k \<Rightarrow> Inr (Unsafe (CryptoTyped VLD0 (NodeId k))))
      else Inl ''Unknown address type'')"

text \<open>\<open>TryFrom<Multiaddr>\<close>\<close>

definition try_from_multiaddr :: "ext \<Rightarrow> multiaddr \<Rightarrow> string + Address" where
  "try_from_multiaddr x m = try_from_string x (multiaddr_to_string x m)"

text \<open>What a remote node can know of an address: not its owner keys, not its DHT status.\<close>

fun public_part :: "Address \<Rightarrow> Address" where
  "public_part (Safe key kp st) = Safe key None DHTNone"
| "public_part (Unsafe key) = Unsafe key"

text \<open>Keys made by this program have the kind \<open>VLD0\<close>.\<close>

fun vld0_address :: "Address \<Rightarrow> bool" where
  "vld0_address (Safe key kp st) \<longleftrightarrow> ct_kind key = VLD0"
| "vld0_address (Unsafe key) \<longleftrightarrow> ct_kind key = VLD0"

subsection \<open>Order\<close>

datatype ordering = Less | Equal | Greater

definition string_cmp :: "string \<Rightarrow> string \<Rightarrow> ordering" where
  "string_cmp a b = (if a < b then Less else if a = b then Equal else Greater)"

fun cmp_key :: "ext \<Rightarrow> Address \<Rightarrow> string" where
  "cmp_key x (Safe (CryptoTyped kind (RecordKey k)) kp st) = typed_to_string x kind k"
| "cmp_key x (Unsafe (CryptoTyped kind (NodeId k))) = typed_to_string x kind k"

definition address_cmp :: "ext \<Rightarrow> Address \<Rightarrow> Address \<Rightarrow> ordering" where
  "address_cmp x a b = string_cmp (cmp_key x a) (cmp_key x b)"

lemma string_cmp_swap:
  "string_cmp b a = (case string_cmp a b of Less \<Rightarrow> Greater | Equal \<Rightarrow> Equal | Greater \<Rightarrow> Less)"
  by (auto simp: string_cmp_def)

lemma address_cmp_swap:
  "address_cmp x b a =
     (case address_cmp x a b of Less \<Rightarrow> Greater | Equal \<Rightarrow> Equal | Greater \<Rightarrow> Less)"
  by (simp add: address_cmp_def string_cmp_swap [of "cmp_key x b"])

lemma cmp_key_public_part [simp]: "cmp_key x (public_part a) = cmp_key x a"
  by (induction x a rule: cmp_key.induct) auto

lemma address_cmp_public_part [simp]:
  "address_cmp x (public_part a) b = address_cmp x a b"
  "address_cmp x a (public_part b) = address_cmp x a b"
  by (simp_all add: address_cmp_def)

subsection \<open>DHT operations\<close>

fun address_to_target :: "veilid_api \<Rightarrow> Address \<Rightarrow> Target option \<times> api_call list" where
  "address_to_target api (Unsafe key) = (Some (NodeIdTarget key), [])"
| "address_to_target api (Safe key kp st) =
     (if \<not> routing_context api then (None, [])
      else if \<not> open_dht_record api key None then (None, [OpenDht key None])
      else (case get_dht_value api key of
          None \<Rightarrow> (None, [OpenDht key None, GetDht key])
        | Some None \<Rightarrow> (None, [OpenDht key None, GetDht key])
        | Some (Some private_route) \<Rightarrow>
            (case import_remote_private_route api private_route of
               None \<Rightarrow> None
             | Some crypto_key \<Rightarrow> Some (PrivateRoute crypto_key),
             [OpenDht key None, GetDht key, ImportRoute private_route])))"

definition new_safe :: "veilid_api \<Rightarrow> utc \<Rightarrow> (string + Address) \<times> api_call list" where
  "new_safe api now =
     (let failed = Inl ''Failed to create new safe address'' in
      case new_custom_private_route api of
        None \<Rightarrow> (failed, [NewPrivateRoute])
      | Some (route_id, blob_data) \<Rightarrow>
          if \<not> routing_context api then (failed, [NewPrivateRoute])
          else if \<not> dht_schema api then (failed, [NewPrivateRoute])
          else (case create_dht_record api of
              None \<Rightarrow> (failed, [NewPrivateRoute, CreateDht])
            | Some (dht_key, owner, owner_secret) \<Rightarrow>
                (case owner_secret of
                   None \<Rightarrow> (failed, [NewPrivateRoute, CreateDht])
                 | Some secret_key \<Rightarrow>
                     (let keypair = KeyPair owner secret_key;
                          calls = [NewPrivateRoute, CreateDht, SetDht dht_key blob_data None]
                      in if set_dht_value api dht_key blob_data None
                         then (Inr (Safe dht_key (Some keypair) (DHTActive now)), calls)
                         else (failed, calls)))))"

fun update_safe :: "veilid_api \<Rightarrow> Address \<Rightarrow> (string + Target) \<times> api_call list" where
  "update_safe api (Unsafe key) = (Inl ''Can't update an unsafe address'', [])"
| "update_safe api (Safe key keypair st) =
     (let failed = Inl ''Failed to update address'' in
      case new_custom_private_route api of
        None \<Rightarrow> (failed, [NewPrivateRoute])
      | Some (route_id, blob_data) \<Rightarrow>
          (case keypair of
             None \<Rightarrow> (failed, [NewPrivateRoute])
           | Some owner_keys \<Rightarrow>
               if \<not> routing_context api then (failed, [NewPrivateRoute])
               else if \<not> open_dht_record api key (Some owner_keys)
               then (failed, [NewPrivateRoute, OpenDht key (Some owner_keys)])
               else (let calls = [NewPrivateRoute, OpenDht key (Some owner_keys),
                                  SetDht key blob_data (Some owner_keys)]
                     in if \<not> set_dht_value api key blob_data (Some owner_keys)
                        then (failed, calls)
                        else (case import_remote_private_route api blob_data of
                            None \<Rightarrow> (failed, calls @ [ImportRoute blob_data])
                          | Some target \<Rightarrow>
                              (Inr (PrivateRoute target), calls @ [ImportRoute blob_data])))))"

subsection \<open>Lemmas\<close>

lemma address_text_public_part [simp]: "address_text x (public_part a) = address_text x a"
  by (induction x a rule: address_text.induct) auto

lemma public_part_idem [simp]: "public_part (public_part a) = public_part a"
  by (cases a) auto

lemma split_address_text:
  assumes "CHR '':'' \<notin> set e"
  shows "split_on (CHR '':'') (''/unix/s:'' @ e) = [''/unix/s'', e]"
    and "split_on (CHR '':'') (''/unix/us:'' @ e) = [''/unix/us'', e]"
  by (simp_all add: split_on_absent [OF assms])

lemma try_from_string_address_text:
  assumes law: "key_text_law x" and kind: "vld0_address a"
  shows "try_from_string x (address_text x a) = Inr (public_part a)"
proof -
  from law have dec: "key_decode x (key_encode x k) = Some k"
    and colon: "CHR '':'' \<notin> set (key_encode x k)" for k
    by (simp_all add: key_text_law_def)
  show ?thesis
  proof (cases a)
    case (Safe key kp st)
    moreover obtain k where "key = CryptoTyped VLD0 (RecordKey k)"
      using kind Safe by (cases key, cases "ct_value key") auto
    ultimately show ?thesis
      using split_address_text(1) [OF colon [of k]] by (simp add: try_from_string_def dec)
  next
    case (Unsafe key)
    moreover obtain k where "key = CryptoTyped VLD0 (NodeId k)"
      using kind Unsafe by (cases key, cases "ct_value key") auto
    ultimately show ?thesis
      using split_address_text(2) [OF colon [of k]] by (simp add: try_from_string_def dec)
  qed
qed

lemma address_text_cases:
  "\<exists>prefix \<in> {''/unix/s:'', ''/unix/us:''}. \<exists>k. address_text x a = prefix @ key_encode x k"
  by (induction x a rule: address_text.induct) (simp_all, blast+)

lemma to_multiaddr_Return:
  assumes "multiaddr_law x"
  shows "\<exists>m. to_multiaddr x a = Return m \<and> multiaddr_to_string x m = address_text x a"
proof -
  obtain prefix k where p: "prefix \<in> {''/unix/s:'', ''/unix/us:''}"
    "address_text x a = prefix @ key_encode x k"
    using address_text_cases by metis
  obtain m where "multiaddr_parse x (prefix @ key_encode x k) = Some m"
    and "multiaddr_to_string x m = prefix @ key_encode x k"
    using assms p(1) unfolding multiaddr_law_def by metis
  then show ?thesis by (simp only: p(2) to_multiaddr_def option.case run.inject) simp
qed

text \<open>Every address parsed from text has the kind \<open>VLD0\<close> and only public parts.\<close>

lemma try_from_string_canonical:
  "try_from_string x s = Inr a \<Longrightarrow> vld0_address a \<and> public_part a = a"
  by (auto simp: try_from_string_def Let_def split: if_splits option.splits)

lemma update_safe_Inr:
  assumes "update_safe api a = (Inr t, calls)"
  shows "\<exists>key owner st route_id blob route.
     a = Safe key (Some owner) st \<and> t = PrivateRoute route \<and>
     new_custom_private_route api = Some (route_id, blob) \<and>
     import_remote_private_route api blob = Some route \<and>
     set_dht_value api key blob (Some owner) \<and>
     calls = [NewPrivateRoute, OpenDht key (Some owner), SetDht key blob (Some owner),
              ImportRoute blob]"
  using assms
  by (cases "(api, a)" rule: update_safe.cases)
    (auto simp: Let_def split: if_splits option.splits prod.splits)

lemma new_safe_Inr:
  assumes "new_safe api now = (Inr a, calls)"
  shows "\<exists>key owner secret blob.
     a = Safe key (Some (KeyPair owner secret)) (DHTActive now) \<and>
     set_dht_value api key blob None \<and>
     calls = [NewPrivateRoute, CreateDht, SetDht key blob None]"
  using assms
  by (auto simp: new_safe_def Let_def split: if_splits option.splits prod.splits)

end
