(* ===== verification/Stream_Seq.thy ===== *)
theory Stream_Seq
  imports Prelude
begin

text \<open>
  \<open>src/src/stream_seq.rs\<close>: the atomic sequence counters of a stream. \<open>fetch_add\<close> wraps;
  the addition after it is unchecked in a release build, which is what is modelled (a debug
  build panics at \<open>u32::MAX\<close>). The getters and setters the macros generate are in \<open>Stream\<close>,
  with the record they are methods of.
\<close>

record StreamSeq =
  seq_value :: u32

definition StreamSeq_new :: "u32 \<Rightarrow> StreamSeq" where
  "StreamSeq_new initial_value = \<lparr>seq_value = initial_value\<rparr>"

definition StreamSeq_load :: "StreamSeq \<Rightarrow> u32" where
  "StreamSeq_load s = seq_value s"

definition StreamSeq_increment :: "StreamSeq \<Rightarrow> u32 \<times> StreamSeq" where
  "StreamSeq_increment s =
     (let previous = seq_value s; s' = s\<lparr>seq_value := previous + 1\<rparr> in (previous + 1, s'))"

definition StreamSeq_update :: "u32 \<Rightarrow> StreamSeq \<Rightarrow> StreamSeq" where
  "StreamSeq_update new_seq s = s\<lparr>seq_value := new_seq\<rparr>"

text \<open>The contract of a counter, for the code that numbers messages with it.\<close>

locale seq_counter =
  fixes load :: "'c \<Rightarrow> u32"
    and increment :: "'c \<Rightarrow> u32 \<times> 'c"
    and update :: "u32 \<Rightarrow> 'c \<Rightarrow> 'c"
  assumes increment_result: "fst (increment c) = load c + 1"
    and load_increment: "load (snd (increment c)) = load c + 1"
    and load_update: "load (update v c) = v"
begin

lemma increment_returns_load: "fst (increment c) = load (snd (increment c))"
  by (simp add: increment_result load_increment)

lemma increments:
  "load (((snd \<circ> increment) ^^ n) c) = load c + of_nat n"
  by (induction n) (simp_all add: load_increment)

lemma increments_distinct:
  assumes "i < j" "j < 4294967296"
  shows "load (((snd \<circ> increment) ^^ i) c) \<noteq> load (((snd \<circ> increment) ^^ j) c)"
  using assms by (simp add: increments u32_of_nat_eq_iff)

lemma increment_wraps: "load c = - 1 \<Longrightarrow> fst (increment c) = 0"
  by (simp add: increment_result)

end

interpretation seq: seq_counter StreamSeq_load StreamSeq_increment StreamSeq_update
  by unfold_locales
    (simp_all add: StreamSeq_load_def StreamSeq_increment_def StreamSeq_update_def Let_def)

lemma seq_load_new [simp]: "StreamSeq_load (StreamSeq_new v) = v"
  by (simp add: StreamSeq_load_def StreamSeq_new_def)

declare seq.load_update [simp] seq.load_increment [simp] seq.increment_result [simp]

end
