(* ===== verification/Transport_Settings.thy ===== *)
theory Transport_Settings
  imports Prelude
begin

text \<open>\<open>src/src/lib.rs\<close>: the transport's constants (\<open>struct Settings\<close>, \<open>const SETTINGS\<close>).\<close>

record Settings =
  veilid_network_message_limit_bytes :: nat
  transport_stream_packet_data_size_bytes :: nat
  connection_keepalive_timeout :: nat
  message_retry_timeout :: nat
  stream_timeout_secs :: nat
  heartbeat_secs :: nat

definition SETTINGS :: Settings where
  "SETTINGS = \<lparr>
     veilid_network_message_limit_bytes = 32768,
     transport_stream_packet_data_size_bytes = 32623,
     connection_keepalive_timeout = 5,
     message_retry_timeout = 5,
     stream_timeout_secs = 20,
     heartbeat_secs = 5\<rparr>"


lemma SETTINGS_simps [simp]:
  "veilid_network_message_limit_bytes SETTINGS = 32768"
  "transport_stream_packet_data_size_bytes SETTINGS = 32623"
  "connection_keepalive_timeout SETTINGS = 5"
  "message_retry_timeout SETTINGS = 5"
  "stream_timeout_secs SETTINGS = 20"
  "heartbeat_secs SETTINGS = 5"
  by (simp_all add: SETTINGS_def)

text \<open>\<open>VeilidTransportType\<close>\<close>

datatype VeilidTransportType = UnsafeTransport | SafeTransport

end
