(* ===== verification/Stream.thy ===== *)
theory Stream
  imports Address Stream_Seq Transport_Settings
begin

text \<open>
  \<open>src/src/stream.rs\<close>, the state: a stream's record, its constructor, its one-line setters,
  and the predicates on its status and its clock. Locks are never poisoned in this model (no
  modelled panic happens while a lock of the stream is held), so every \<open>lock()\<close> succeeds.
\<close>

subsection \<open>Data\<close>

datatype StreamStatus = Dial | Listen | Active | Expired

record OutboundMessage =
  seq :: u32
  data :: bytes
  last_try_send :: "instant option"

text \<open>
  \<open>wakes\<close> is not a field of the code: it lists the wake-ups issued to the tasks that
  registered a waker, which the runtime would have queued.
\<close>

record VeilidStream =
  listener_id :: nat
  my_keypair :: Keypair
  remote_public_key :: "PublicKey option"
  local_address :: Address
  remote_address :: Address
  remote_target :: Target
  my_stream_id :: u64
  remote_stream_id :: u64
  waker :: "nat option"
  inbound_stream :: bytes
  inbound_buffer :: bytes
  inbound_received_seq :: StreamSeq
  inbound_message_queue :: "(u32, bytes) hashmap"
  inbound_last_timestamp :: instant
  outbound_stream :: bytes
  outbound_message_queue :: "(u32, OutboundMessage) hashmap"
  outbound_last_seq :: StreamSeq
  outbound_delivered_seq :: StreamSeq
  outbound_last_timestamp :: instant
  status :: StreamStatus
  wakes :: "nat list"

text \<open>The clock readings of one operation: \<open>Instant::now\<close>, \<open>Utc::now\<close>, \<open>SystemTime\<close>.\<close>

record clock =
  instant_now :: instant
  utc_now :: utc
  unix_secs :: int

text \<open>\<open>SystemTime::now()\<close> against the epoch: negative before it, where \<open>duration_since\<close> fails.\<close>

definition after_epoch :: "clock \<Rightarrow> bool" where
  "after_epoch clk \<longleftrightarrow> 0 \<le> unix_secs clk"

subsection \<open>Constructor and setters\<close>

text \<open>The fields \<open>VeilidStream::new\<close> sets, and the function with its \<open>unwrap\<close> of the time.\<close>

definition stream_init ::
  "clock \<Rightarrow> nat \<Rightarrow> Address \<Rightarrow> Address \<Rightarrow> Target \<Rightarrow> u64 \<Rightarrow> Keypair \<Rightarrow> VeilidStream" where
  "stream_init clk lid laddr raddr rtarget rid keypair = \<lparr>
     listener_id = lid,
     my_keypair = keypair,
     remote_public_key = None,
     local_address = laddr,
     remote_address = raddr,
     remote_target = rtarget,
     my_stream_id = of_int (unix_secs clk),
     remote_stream_id = rid,
     waker = None,
     inbound_stream = [],
     inbound_buffer = [],
     inbound_received_seq = StreamSeq_new 0,
     inbound_message_queue = [],
     inbound_last_timestamp = instant_now clk,
     outbound_stream = [],
     outbound_message_queue = [],
     outbound_last_seq = StreamSeq_new 0,
     outbound_delivered_seq = StreamSeq_new 0,
     outbound_last_timestamp = instant_now clk,
     status = Dial,
     wakes = []\<rparr>"

definition stream_new ::
  "clock \<Rightarrow> nat \<Rightarrow> Address \<Rightarrow> Address \<Rightarrow> Target \<Rightarrow> u64 \<Rightarrow> Keypair \<Rightarrow> VeilidStream run" where
  "stream_new clk lid laddr raddr rtarget rid keypair =
     (if after_epoch clk then Return (stream_init clk lid laddr raddr rtarget rid keypair)
      else Panic ''duration_since: unwrap'')"

definition update_remote_stream_id :: "u64 \<Rightarrow> VeilidStream \<Rightarrow> VeilidStream" where
  [stream_defs]: "update_remote_stream_id sid s = s\<lparr>remote_stream_id := sid\<rparr>"

definition update_inbound_last_timestamp_to_now :: "instant \<Rightarrow> VeilidStream \<Rightarrow> VeilidStream" where
  [stream_defs]: "update_inbound_last_timestamp_to_now now s = s\<lparr>inbound_last_timestamp := now\<rparr>"

definition update_outbound_last_timestamp_to_now :: "instant \<Rightarrow> VeilidStream \<Rightarrow> VeilidStream" where
  [stream_defs]: "update_outbound_last_timestamp_to_now now s = s\<lparr>outbound_last_timestamp := now\<rparr>"

definition update_status :: "StreamStatus \<Rightarrow> VeilidStream \<Rightarrow> VeilidStream" where
  [stream_defs]: "update_status st s = s\<lparr>status := st\<rparr>"

definition update_remote_public_key :: "PublicKey \<Rightarrow> VeilidStream \<Rightarrow> VeilidStream" where
  [stream_defs]: "update_remote_public_key key s = s\<lparr>remote_public_key := Some key\<rparr>"

text \<open>The macro-generated accessors of \<open>stream_seq.rs\<close>.\<close>

definition get_outbound_last_seq :: "VeilidStream \<Rightarrow> u32" where
  [stream_defs]: "get_outbound_last_seq s = StreamSeq_load (outbound_last_seq s)"

definition get_outbound_delivered_seq :: "VeilidStream \<Rightarrow> u32" where
  [stream_defs]: "get_outbound_delivered_seq s = StreamSeq_load (outbound_delivered_seq s)"

definition get_inbound_received_seq :: "VeilidStream \<Rightarrow> u32" where
  [stream_defs]: "get_inbound_received_seq s = StreamSeq_load (inbound_received_seq s)"

definition increment_outbound_last_seq :: "VeilidStream \<Rightarrow> VeilidStream" where
  [stream_defs]: "increment_outbound_last_seq s =
     s\<lparr>outbound_last_seq := snd (StreamSeq_increment (outbound_last_seq s))\<rparr>"

definition update_outbound_delivered_seq :: "u32 \<Rightarrow> VeilidStream \<Rightarrow> VeilidStream" where
  [stream_defs]: "update_outbound_delivered_seq v s =
     s\<lparr>outbound_delivered_seq := StreamSeq_update v (outbound_delivered_seq s)\<rparr>"

definition update_inbound_received_seq :: "u32 \<Rightarrow> VeilidStream \<Rightarrow> VeilidStream" where
  [stream_defs]: "update_inbound_received_seq v s =
     s\<lparr>inbound_received_seq := StreamSeq_update v (inbound_received_seq s)\<rparr>"

definition get_remote_target :: "VeilidStream \<Rightarrow> Target" where
  [stream_defs]: "get_remote_target s = remote_target s"

definition get_remote_stream_id :: "VeilidStream \<Rightarrow> u64" where
  [stream_defs]: "get_remote_stream_id s = remote_stream_id s"

definition wake_to_read :: "VeilidStream \<Rightarrow> VeilidStream" where
  [stream_defs]: "wake_to_read s =
     (case waker s of Some w \<Rightarrow> s\<lparr>wakes := wakes s @ [w]\<rparr> | None \<Rightarrow> s)"

subsection \<open>Status and liveness\<close>

text \<open>The test the three status functions share, written out in each of them.\<close>

definition heard_recently :: "instant \<Rightarrow> VeilidStream \<Rightarrow> bool" where
  "heard_recently now s \<longleftrightarrow>
     inbound_last_timestamp s > now - secs (stream_timeout_secs SETTINGS)"

definition is_pending :: "VeilidStream \<Rightarrow> bool" where
  "is_pending s \<longleftrightarrow> status s \<noteq> Active \<and> status s \<noteq> Expired"

definition is_active :: "instant \<Rightarrow> VeilidStream \<Rightarrow> bool" where
  "is_active now s = (if status s \<noteq> Active then False else heard_recently now s)"

definition is_expired :: "instant \<Rightarrow> VeilidStream \<Rightarrow> bool" where
  "is_expired now s = (if status s = Expired then False else \<not> heard_recently now s)"

definition get_status :: "instant \<Rightarrow> VeilidStream \<Rightarrow> string + StreamStatus" where
  "get_status now s = (case status s of
       Dial \<Rightarrow> Inr Dial
     | Listen \<Rightarrow> Inr Listen
     | Active \<Rightarrow> (if heard_recently now s then Inr Active else Inr Expired)
     | Expired \<Rightarrow> Inr Expired)"

lemmas liveness_defs = heard_recently_def is_pending_def is_active_def is_expired_def get_status_def

subsection \<open>Lemmas\<close>

lemma is_active_status: "is_active now s \<Longrightarrow> status s = Active"
  by (simp add: is_active_def split: if_splits)

lemma is_active_cong:
  "status s = status t \<Longrightarrow> inbound_last_timestamp s = inbound_last_timestamp t \<Longrightarrow>
    is_active now s = is_active now t"
  by (simp add: is_active_def heard_recently_def)

lemma active_xor_expired:
  "status s = Active \<Longrightarrow> is_expired now s \<longleftrightarrow> \<not> is_active now s"
  by (simp add: liveness_defs)

lemma heard_recently_antimono: "heard_recently now s \<Longrightarrow> now' \<le> now \<Longrightarrow> heard_recently now' s"
  by (simp add: heard_recently_def)

lemma heard_recently_iff:
  "heard_recently now s \<longleftrightarrow> now - inbound_last_timestamp s < secs 20"
  by (auto simp: heard_recently_def)

lemma stream_init_simps [simp]:
  "status (stream_init clk lid l r t i k) = Dial"
  "remote_address (stream_init clk lid l r t i k) = r"
  "local_address (stream_init clk lid l r t i k) = l"
  "remote_target (stream_init clk lid l r t i k) = t"
  "remote_stream_id (stream_init clk lid l r t i k) = i"
  "my_stream_id (stream_init clk lid l r t i k) = of_int (unix_secs clk)"
  "my_keypair (stream_init clk lid l r t i k) = k"
  "remote_public_key (stream_init clk lid l r t i k) = None"
  "inbound_stream (stream_init clk lid l r t i k) = []"
  "inbound_buffer (stream_init clk lid l r t i k) = []"
  "outbound_stream (stream_init clk lid l r t i k) = []"
  "inbound_message_queue (stream_init clk lid l r t i k) = []"
  "outbound_message_queue (stream_init clk lid l r t i k) = []"
  "inbound_received_seq (stream_init clk lid l r t i k) = StreamSeq_new 0"
  "outbound_last_seq (stream_init clk lid l r t i k) = StreamSeq_new 0"
  "outbound_delivered_seq (stream_init clk lid l r t i k) = StreamSeq_new 0"
  "inbound_last_timestamp (stream_init clk lid l r t i k) = instant_now clk"
  "outbound_last_timestamp (stream_init clk lid l r t i k) = instant_now clk"
  "waker (stream_init clk lid l r t i k) = None"
  by (simp_all add: stream_init_def)

text \<open>Waking a reader changes nothing but the list of wake-ups.\<close>

lemma wake_to_read_frame [simp]:
  "inbound_stream (wake_to_read s) = inbound_stream s"
  "inbound_buffer (wake_to_read s) = inbound_buffer s"
  "inbound_received_seq (wake_to_read s) = inbound_received_seq s"
  "inbound_message_queue (wake_to_read s) = inbound_message_queue s"
  "inbound_last_timestamp (wake_to_read s) = inbound_last_timestamp s"
  "outbound_stream (wake_to_read s) = outbound_stream s"
  "outbound_message_queue (wake_to_read s) = outbound_message_queue s"
  "outbound_last_seq (wake_to_read s) = outbound_last_seq s"
  "outbound_delivered_seq (wake_to_read s) = outbound_delivered_seq s"
  "outbound_last_timestamp (wake_to_read s) = outbound_last_timestamp s"
  "status (wake_to_read s) = status s"
  "waker (wake_to_read s) = waker s"
  "remote_address (wake_to_read s) = remote_address s"
  "local_address (wake_to_read s) = local_address s"
  "remote_target (wake_to_read s) = remote_target s"
  "remote_stream_id (wake_to_read s) = remote_stream_id s"
  "my_stream_id (wake_to_read s) = my_stream_id s"
  "remote_public_key (wake_to_read s) = remote_public_key s"
  "my_keypair (wake_to_read s) = my_keypair s"
  "listener_id (wake_to_read s) = listener_id s"
  by (simp_all add: wake_to_read_def split: option.splits)

end
