(* ===== verification/Framing.thy ===== *)
theory Framing
  imports Prelude
begin

text \<open>
  The byte framing of \<open>src/src/stream.rs\<close>: a write becomes a \<open>u32\<close> little-endian length
  followed by the data (\<open>insert_to_outbound_stream\<close>), and the receiver's loop cuts the buffer
  at these lengths (the \<open>while\<close> of \<open>update_inbound_stream\<close>). The theory states what the
  receiver's loop does to any cut of the sender's byte sequence, and packages it as the
  \<open>framing\<close> interface the delivery proof uses.
\<close>

subsection \<open>Sender and receiver\<close>

text \<open>\<open>data.len() as u32\<close> truncates.\<close>

definition frame :: "bytes \<Rightarrow> bytes" where
  "frame data = u32_to_le_bytes (of_nat (length data)) @ data"

definition header_len :: "bytes \<Rightarrow> nat" where
  "header_len buf = unat (u32_from_le_bytes (buf ! 0) (buf ! 1) (buf ! 2) (buf ! 3))"

text \<open>
  The three ways out of the loop: the buffer is used up, it holds a beginning of a header
  (the code returns from the function), or it holds a header with too little data (break).
\<close>

datatype loop_exit = Used_up | Short_header | Short_slice

function deframe_loop :: "bytes \<Rightarrow> bytes list \<Rightarrow> loop_exit \<times> bytes list \<times> bytes" where
  "deframe_loop buf complete_slices =
     (if buf = [] then (Used_up, complete_slices, buf)
      else if length buf < 4 then (Short_header, complete_slices, buf)
      else let slice_len = header_len buf in
        if length buf \<ge> slice_len + 4
        then deframe_loop (drop (4 + slice_len) buf)
               (complete_slices @ [drop 4 (take (4 + slice_len) buf)])
        else (Short_slice, complete_slices, buf))"
  by pat_completeness auto
termination
  by (relation "measure (\<lambda>(buf, acc). length buf)") auto

declare deframe_loop.simps [simp del]

subsection \<open>Lemmas\<close>

lemma length_frame [simp]: "length (frame d) = 4 + length d"
  by (simp add: frame_def)

lemma frame_not_Nil [simp]: "frame d \<noteq> []"
  by (simp add: frame_def u32_to_le_bytes_def)

lemma header_len_frame:
  assumes "length d < 4294967296"
  shows "header_len (frame d @ rest) = length d"
proof -
  let ?h = "u32_to_le_bytes (of_nat (length d))"
  have h: "(frame d @ rest) ! i = ?h ! i" if "i < 4" for i
    using that by (simp add: frame_def nth_append)
  show ?thesis
    using assms u32_le_roundtrip [of "of_nat (length d)"]
    by (simp only: header_len_def h) simp
qed

lemma header_len_prefix:
  assumes "prefix b b'" and "4 \<le> length b"
  shows "header_len b = header_len b'"
proof -
  obtain r where "b' = b @ r" using assms(1) by (auto simp: prefix_def)
  moreover have "(b @ r) ! i = b ! i" if "i < 4" for i
    using that assms(2) by (simp add: nth_append)
  ultimately show ?thesis by (simp add: header_len_def)
qed

lemma deframe_loop_Nil [simp]: "deframe_loop [] acc = (Used_up, acc, [])"
  by (simp add: deframe_loop.simps)

lemma deframe_loop_frame:
  assumes "length d < 4294967296"
  shows "deframe_loop (frame d @ rest) acc = deframe_loop rest (acc @ [d])"
proof -
  have "drop 4 (take (4 + length d) (frame d @ rest)) = d"
    by (simp add: frame_def)
  moreover have "drop (4 + length d) (frame d @ rest) = rest"
    by simp
  ultimately show ?thesis
    using header_len_frame [OF assms, of rest]
    by (subst deframe_loop.simps) (simp add: Let_def)
qed

definition frames_ok :: "bytes list \<Rightarrow> bool" where
  "frames_ok ds \<longleftrightarrow> (\<forall>d \<in> set ds. length d < 4294967296)"

lemma frames_ok_simps [simp]:
  "frames_ok []"
  "frames_ok (d # ds) \<longleftrightarrow> length d < 4294967296 \<and> frames_ok ds"
  "frames_ok (ds @ es) \<longleftrightarrow> frames_ok ds \<and> frames_ok es"
  by (auto simp: frames_ok_def)

lemma frames_ok_take: "frames_ok ds \<Longrightarrow> frames_ok (take k ds)"
  by (auto simp: frames_ok_def dest: in_set_takeD)

lemma frames_ok_drop: "frames_ok ds \<Longrightarrow> frames_ok (drop k ds)"
  by (auto simp: frames_ok_def dest: in_set_dropD)

definition framed :: "bytes list \<Rightarrow> bytes" where
  "framed ds = concat (map frame ds)"

lemma framed_simps [simp]:
  "framed [] = []"
  "framed (d # ds) = frame d @ framed ds"
  "framed (ds @ es) = framed ds @ framed es"
  by (simp_all add: framed_def)

lemma deframe_loop_framed:
  "frames_ok ds \<Longrightarrow> deframe_loop (framed ds @ rest) acc = deframe_loop rest (acc @ ds)"
  by (induction ds arbitrary: acc) (simp_all add: deframe_loop_frame)

text \<open>A strict beginning of one frame stays in the buffer.\<close>

lemma deframe_loop_strict_prefix:
  assumes "strict_prefix b (frame d)" and "length d < 4294967296"
  shows "\<exists>ex. deframe_loop b acc = (ex, acc, b)"
proof (cases "4 \<le> length b")
  case False
  then show ?thesis by (subst deframe_loop.simps) auto
next
  case True
  have "prefix b (frame d)" using assms(1) by auto
  then have "header_len b = length d"
    using header_len_prefix [of b "frame d"] header_len_frame [OF assms(2), of "[]"] True by simp
  moreover have "length b < 4 + length d"
    using prefix_length_less [OF assms(1)] by simp
  moreover have "b \<noteq> []" using True by auto
  ultimately show ?thesis using True by (subst deframe_loop.simps) (auto simp: Let_def)
qed

text \<open>
  The loop on any beginning of the sender's bytes: it takes out the slices that are complete
  and leaves the rest, a strict beginning of the next frame.
\<close>

lemma deframe_loop_prefix:
  assumes "frames_ok ds" and "prefix b (framed ds)"
  shows "\<exists>k ex r. k \<le> length ds \<and> deframe_loop b acc = (ex, acc @ take k ds, r) \<and>
           b = framed (take k ds) @ r"
  using assms
proof (induction ds arbitrary: b acc)
  case Nil
  then show ?case by simp
next
  case (Cons d ds)
  show ?case
  proof (cases "prefix (frame d) b")
    case True
    then obtain b' where b: "b = frame d @ b'" by (auto simp: prefix_def)
    with Cons.prems have "prefix b' (framed ds)" by simp
    then obtain k ex r where IH: "k \<le> length ds" "deframe_loop b' (acc @ [d]) = (ex, (acc @ [d]) @ take k ds, r)"
      "b' = framed (take k ds) @ r"
      using Cons.IH [of b' "acc @ [d]"] Cons.prems(1) by auto
    then show ?thesis
      using b Cons.prems(1) deframe_loop_frame [of d b' acc]
      by (intro exI [of _ "Suc k"] exI [of _ ex] exI [of _ r]) simp
  next
    case False
    have "prefix b (frame d)"
      using Cons.prems(2) False prefix_append [of b "frame d" "framed ds"]
      by (auto simp: prefix_def)
    with False have "strict_prefix b (frame d)" by (auto simp: strict_prefix_def)
    then obtain ex where "deframe_loop b acc = (ex, acc, b)"
      using deframe_loop_strict_prefix [of b d acc] Cons.prems(1) by auto
    then show ?thesis by (intro exI [of _ 0] exI [of _ ex] exI [of _ b]) simp
  qed
qed

text \<open>The loop only cuts: headers, slices and rest make up the buffer again.\<close>

lemma deframe_loop_length:
  "deframe_loop b acc = (ex, acc', r) \<Longrightarrow> length r \<le> length b"
proof (induction b acc rule: deframe_loop.induct)
  case (1 b acc)
  show ?case
    using 1(2) 1(1) [OF _ _ refl]
    by (subst (asm) deframe_loop.simps) (fastforce simp: Let_def split: if_splits)
qed

lemma deframe_loop_exit:
  "deframe_loop b acc = (ex, acc', r) \<Longrightarrow>
     (ex = Used_up \<longleftrightarrow> r = []) \<and> (ex = Short_header \<longleftrightarrow> 0 < length r \<and> length r < 4)"
proof (induction b acc rule: deframe_loop.induct)
  case (1 b acc)
  show ?case
  proof (cases "b = [] \<or> length b < 4 \<or> length b < header_len b + 4")
    case True
    with 1(2) show ?thesis
      by (subst (asm) deframe_loop.simps) (auto simp: Let_def split: if_splits)
  next
    case False
    then have "deframe_loop b acc = deframe_loop (drop (4 + header_len b) b)
        (acc @ [drop 4 (take (4 + header_len b) b)])"
      by (subst deframe_loop.simps) (auto simp: Let_def)
    with 1(2) 1(1) [OF _ _ refl] False show ?thesis by (simp add: not_less)
  qed
qed

text \<open>The accumulator only collects.\<close>

lemma deframe_loop_acc: "\<exists>ex sl r. \<forall>acc. deframe_loop b acc = (ex, acc @ sl, r)"
proof (induction b rule: length_induct)
  case (1 b)
  show ?case
  proof (cases "b = [] \<or> length b < 4 \<or> length b < header_len b + 4")
    case True
    then have "\<forall>acc. deframe_loop b acc =
        (if b = [] then Used_up else if length b < 4 then Short_header else Short_slice, acc @ [], b)"
      by (subst deframe_loop.simps) (auto simp: Let_def)
    then show ?thesis by blast
  next
    case False
    let ?b = "drop (4 + header_len b) b" and ?s = "drop 4 (take (4 + header_len b) b)"
    have step: "deframe_loop b acc = deframe_loop ?b (acc @ [?s])" for acc
      using False by (subst deframe_loop.simps) (auto simp: Let_def)
    have "length ?b < length b" using False by (cases b) auto
    with 1 obtain ex sl r where "\<forall>acc. deframe_loop ?b acc = (ex, acc @ sl, r)" by blast
    then have "\<forall>acc. deframe_loop b acc = (ex, acc @ (?s # sl), r)" by (simp add: step)
    then show ?thesis by blast
  qed
qed

text \<open>Whether a sequence of bytes ends inside a header, when cut from its start.\<close>

definition ends_in_header :: "bytes \<Rightarrow> bool" where
  "ends_in_header b \<longleftrightarrow> fst (deframe_loop b []) = Short_header"

lemma ends_in_header_framed:
  assumes "frames_ok ds"
  shows "ends_in_header (framed ds @ b) \<longleftrightarrow> ends_in_header b"
proof -
  obtain ex sl r where "\<forall>acc. deframe_loop b acc = (ex, acc @ sl, r)"
    using deframe_loop_acc by blast
  then show ?thesis
    using deframe_loop_framed [OF assms, of b "[]"] by (simp add: ends_in_header_def)
qed

subsection \<open>The framing contract\<close>

text \<open>
  What the delivery proof needs of a framing: on any beginning of the encoded writes, the
  cut takes out complete writes and keeps the rest. Feeding the bytes in pieces then gives
  the same writes, in order, each once.
\<close>

locale framing =
  fixes enc :: "'d list \<Rightarrow> 'b list"
    and cut :: "'b list \<Rightarrow> 'd list list \<times> 'b list"
    and ok :: "'d list list \<Rightarrow> bool"
  assumes ok_drop: "ok ds \<Longrightarrow> ok (drop k ds)"
    and cut_prefix: "ok ds \<Longrightarrow> prefix b (concat (map enc ds)) \<Longrightarrow> cut b = (sl, r) \<Longrightarrow>
      \<exists>k \<le> length ds. sl = take k ds \<and> b = concat (map enc (take k ds)) @ r"
begin

lemma feed:
  assumes ok: "ok ds" and j: "j \<le> length ds"
    and fed: "fed = concat (map enc (take j ds)) @ buf"
    and pre: "prefix (fed @ new) (concat (map enc ds))"
    and cut: "cut (buf @ new) = (sl, r)"
  shows "\<exists>j'. j \<le> j' \<and> j' \<le> length ds \<and> fed @ new = concat (map enc (take j' ds)) @ r \<and>
    concat (take j ds) @ concat sl = concat (take j' ds)"
proof -
  have split: "concat (map enc ds) = concat (map enc (take j ds)) @ concat (map enc (drop j ds))"
    by (metis append_take_drop_id concat_append map_append)
  have "prefix (buf @ new) (concat (map enc (drop j ds)))"
    using pre by (simp add: fed split)
  from cut_prefix [OF ok_drop [OF ok] this cut] obtain k where
    k: "k \<le> length (drop j ds)" "sl = take k (drop j ds)"
      "buf @ new = concat (map enc (take k (drop j ds))) @ r" by blast
  have "take (j + k) ds = take j ds @ take k (drop j ds)" by (rule take_add)
  then show ?thesis
    using k j by (intro exI [of _ "j + k"]) (simp add: fed)
qed

lemma feed_all:
  assumes "ok ds" and "cut (concat (map enc ds)) = (sl, r)"
  shows "\<exists>k \<le> length ds. sl = take k ds \<and> concat (map enc ds) = concat (map enc (take k ds)) @ r"
  using cut_prefix [OF assms(1) _ assms(2)] by simp

end

definition deframe :: "bytes \<Rightarrow> bytes list \<times> bytes" where
  "deframe b = (case deframe_loop b [] of (ex, slices, rest) \<Rightarrow> (slices, rest))"

interpretation fr: framing frame deframe frames_ok
proof unfold_locales
  fix ds :: "bytes list" and k :: nat
  assume "frames_ok ds"
  then show "frames_ok (drop k ds)" by (rule frames_ok_drop)
next
  fix ds :: "bytes list" and b sl r
  assume "frames_ok ds" "prefix b (concat (map frame ds))" "deframe b = (sl, r)"
  then show "\<exists>k \<le> length ds. sl = take k ds \<and> b = concat (map frame (take k ds)) @ r"
    using deframe_loop_prefix [of ds b "[]"] by (auto simp: deframe_def framed_def)
qed

end
