(* ===== verification/Stream_Inbound.thy ===== *)
theory Stream_Inbound
  imports Stream Framing
begin

text \<open>
  \<open>src/src/stream.rs\<close>, the inbound half: decoding a packet, checking its signature, putting
  messages in order (\<open>recv_message\<close>), cutting the byte stream into slices
  (\<open>update_inbound_stream\<close>) and reading from it. The lemmas say what each does to the
  stream, and that the queue of early messages stays inside its window.
\<close>

subsection \<open>Packets\<close>

type_synonym packet = "u32 \<times> u32 \<times> u64 \<times> Address \<times> bytes \<times> bytes"

text \<open>
  \<open>decode_message\<close> returns an error for bytes that are no \<open>Payload\<close>, and unwraps the
  parsed address: a payload with any other address text panics.
\<close>

definition decode_message :: "ext \<Rightarrow> bytes \<Rightarrow> (string + packet) run" where
  "decode_message x packet = (case payload_decode x packet of
       Inl e \<Rightarrow> Return (Inl e)
     | Inr payload \<Rightarrow>
         (case try_from_string x (pl_address payload) of
            Inl err \<Rightarrow> Panic ''decode_message: unwrap''
          | Inr address \<Rightarrow> Return (Inr
              (pl_received_seq payload, pl_msg_seq payload, pl_stream_id payload, address,
               pl_data payload, pl_signature payload))))"

definition verify_signature :: "ext \<Rightarrow> PublicKey option \<Rightarrow> bytes \<Rightarrow> bytes \<Rightarrow> bool" where
  "verify_signature x pk d sg = (case pk of
       Some key \<Rightarrow> verify x key d sg
     | None \<Rightarrow> False)"

subsection \<open>The inbound buffer\<close>

definition recv_inbound_buffer :: "bytes \<Rightarrow> VeilidStream \<Rightarrow> VeilidStream" where
  "recv_inbound_buffer d s = s\<lparr>inbound_buffer := inbound_buffer s @ d\<rparr>"

text \<open>
  \<open>update_inbound_stream\<close>: on a beginning of a header the code returns at once, and the
  slices it has already drained from the buffer are dropped with the local vector.
\<close>

definition update_inbound_stream :: "VeilidStream \<Rightarrow> VeilidStream" where
  "update_inbound_stream s =
     (case deframe_loop (inbound_buffer s) [] of (ex, complete_slices, rest) \<Rightarrow>
        let s1 = s\<lparr>inbound_buffer := rest\<rparr> in
        if ex = Short_header then s1
        else if complete_slices \<noteq> []
        then wake_to_read (s1\<lparr>inbound_stream := inbound_stream s1 @ concat complete_slices\<rparr>)
        else s1)"

text \<open>
  \<open>read_inbound_stream\<close> for a caller's buffer of \<open>buf_len\<close> bytes: \<open>None\<close> if nothing is
  readable, else the bytes copied to the front of the buffer.
\<close>

definition read_inbound_stream :: "nat \<Rightarrow> VeilidStream \<Rightarrow> bytes option \<times> VeilidStream" where
  "read_inbound_stream buf_len s =
     (if inbound_stream s = [] then (None, s)
      else let readable = min buf_len (length (inbound_stream s)) in
        (Some (take readable (inbound_stream s)),
         s\<lparr>inbound_stream := drop readable (inbound_stream s)\<rparr>))"

subsection \<open>Acknowledgements\<close>

definition remove_sent_messages_from_queue :: "VeilidStream \<Rightarrow> VeilidStream" where
  "remove_sent_messages_from_queue s =
     (let delivered_seq = get_outbound_delivered_seq s in
      s\<lparr>outbound_message_queue :=
          hm_retain (\<lambda>sq _. sq > delivered_seq) (outbound_message_queue s)\<rparr>)"

subsection \<open>Ordering\<close>

text \<open>
  The loop \<open>while let Some(data) = queue.remove(&(final_seq + 1))\<close>: it takes the following
  messages out of the queue as long as they are there, appending each to the buffer.
\<close>

function drain_queue ::
  "u32 \<Rightarrow> (u32, bytes) hashmap \<Rightarrow> bytes \<Rightarrow> u32 \<times> (u32, bytes) hashmap \<times> bytes" where
  "drain_queue final_seq queue buf =
     (case hm_get (final_seq + 1) queue of
        Some d \<Rightarrow> drain_queue (final_seq + 1) (hm_remove (final_seq + 1) queue) (buf @ d)
      | None \<Rightarrow> (final_seq, queue, buf))"
  by pat_completeness auto
termination
  by (relation "measure (\<lambda>(f, q, b). length q)") (auto simp: length_hm_remove_less)

declare drain_queue.simps [simp del]

definition recv_message ::
  "instant \<Rightarrow> u32 \<Rightarrow> u32 \<Rightarrow> bytes \<Rightarrow> VeilidStream \<Rightarrow> VeilidStream" where
  "recv_message now delivered_seq sq d s =
     (let received = get_inbound_received_seq s in
      if sq \<le> received then s
      else if sq > received + 1 then
        (if sq < received + 20
         then s\<lparr>inbound_message_queue := hm_insert sq d (inbound_message_queue s)\<rparr>
         else s)
      else if is_active now s then
        (let s1 = recv_inbound_buffer d s;
             (final_seq, queue, buf) =
               drain_queue (received + 1) (inbound_message_queue s1) (inbound_buffer s1);
             s2 = s1\<lparr>inbound_message_queue := queue, inbound_buffer := buf\<rparr>;
             s3 = update_inbound_stream (remove_sent_messages_from_queue
                    (update_outbound_delivered_seq delivered_seq
                      (update_inbound_received_seq final_seq s2)))
         in update_inbound_last_timestamp_to_now now s3)
      else s)"

subsection \<open>Lemmas: the buffer\<close>

lemma update_inbound_stream_cases:
  assumes "deframe_loop (inbound_buffer s) [] = (ex, slices, rest)"
  shows "update_inbound_stream s =
    (if ex = Short_header then s\<lparr>inbound_buffer := rest\<rparr>
     else if slices = [] then s\<lparr>inbound_buffer := rest\<rparr>
     else wake_to_read (s\<lparr>inbound_buffer := rest,
            inbound_stream := inbound_stream s @ concat slices\<rparr>))"
  using assms by (simp add: update_inbound_stream_def Let_def)

lemma update_inbound_stream_frame [simp]:
  "inbound_received_seq (update_inbound_stream s) = inbound_received_seq s"
  "inbound_message_queue (update_inbound_stream s) = inbound_message_queue s"
  "inbound_last_timestamp (update_inbound_stream s) = inbound_last_timestamp s"
  "outbound_stream (update_inbound_stream s) = outbound_stream s"
  "outbound_message_queue (update_inbound_stream s) = outbound_message_queue s"
  "outbound_last_seq (update_inbound_stream s) = outbound_last_seq s"
  "outbound_delivered_seq (update_inbound_stream s) = outbound_delivered_seq s"
  "outbound_last_timestamp (update_inbound_stream s) = outbound_last_timestamp s"
  "status (update_inbound_stream s) = status s"
  "waker (update_inbound_stream s) = waker s"
  "remote_address (update_inbound_stream s) = remote_address s"
  "local_address (update_inbound_stream s) = local_address s"
  "remote_target (update_inbound_stream s) = remote_target s"
  "remote_stream_id (update_inbound_stream s) = remote_stream_id s"
  "my_stream_id (update_inbound_stream s) = my_stream_id s"
  "remote_public_key (update_inbound_stream s) = remote_public_key s"
  "my_keypair (update_inbound_stream s) = my_keypair s"
  by (auto simp: update_inbound_stream_def Let_def split: prod.splits)

lemma update_inbound_stream_buffer:
  "inbound_buffer (update_inbound_stream s) = snd (deframe (inbound_buffer s))"
  by (auto simp: update_inbound_stream_def deframe_def Let_def split: prod.splits)

lemma update_inbound_stream_stream:
  "inbound_stream (update_inbound_stream s) =
     (if fst (deframe_loop (inbound_buffer s) []) = Short_header then inbound_stream s
      else inbound_stream s @ concat (fst (deframe (inbound_buffer s))))"
  by (auto simp: update_inbound_stream_def deframe_def Let_def split: prod.splits)

text \<open>Whole frames in the buffer become readable at once, and nothing is left.\<close>

lemma update_inbound_stream_framed:
  assumes "inbound_buffer s = framed ds" and "frames_ok ds"
  shows "inbound_stream (update_inbound_stream s) = inbound_stream s @ concat ds"
    and "inbound_buffer (update_inbound_stream s) = []"
  using deframe_loop_framed [OF assms(2), of "[]" "[]"] assms(1)
  by (simp_all add: update_inbound_stream_stream update_inbound_stream_buffer deframe_def)

text \<open>A beginning of a header after complete frames: the frames are gone from both.\<close>

lemma update_inbound_stream_short_header:
  assumes "inbound_buffer s = framed ds @ rest" and "frames_ok ds"
    and "0 < length rest" "length rest < 4"
  shows "update_inbound_stream s = s\<lparr>inbound_buffer := rest\<rparr>"
proof -
  have "deframe_loop rest ds = (Short_header, ds, rest)"
    using assms(3,4) by (subst deframe_loop.simps) auto
  then have "deframe_loop (inbound_buffer s) [] = (Short_header, ds, rest)"
    using deframe_loop_framed [OF assms(2), of rest "[]"] assms(1) by simp
  then show ?thesis by (simp add: update_inbound_stream_cases)
qed

lemma read_inbound_stream_bytes:
  "read_inbound_stream n s = (r, s') \<Longrightarrow>
     (case r of None \<Rightarrow> [] | Some d \<Rightarrow> d) @ inbound_stream s' = inbound_stream s"
  by (auto simp: read_inbound_stream_def Let_def split: if_splits)

lemma read_inbound_stream_frame:
  "read_inbound_stream n s = (r, s') \<Longrightarrow> \<exists>d. s' = s\<lparr>inbound_stream := d\<rparr>"
  by (auto simp: read_inbound_stream_def Let_def split: if_splits intro: exI [of _ "[]"])

subsection \<open>Lemmas: the queue of early messages\<close>

lemma drain_queue_absent:
  "hm_get (f + 1) q = None \<Longrightarrow> drain_queue f q b = (f, q, b)"
  by (simp add: drain_queue.simps)

lemma drain_queue_present:
  "hm_get (f + 1) q = Some d \<Longrightarrow>
    drain_queue f q b = drain_queue (f + 1) (hm_remove (f + 1) q) (b @ d)"
  by (simp add: drain_queue.simps)

text \<open>
  The abstract queue of chunks: message \<open>k\<close> carries chunk \<open>k - 1\<close> of the sender.
\<close>

definition queue_of_chunks :: "bytes list \<Rightarrow> (u32, bytes) hashmap \<Rightarrow> bool" where
  "queue_of_chunks cs q \<longleftrightarrow>
     (\<forall>k d. hm_get k q = Some d \<longrightarrow> 0 < unat k \<and> unat k \<le> length cs \<and> d = cs ! (unat k - 1))"

lemma queue_of_chunksD:
  "queue_of_chunks cs q \<Longrightarrow> hm_get k q = Some d \<Longrightarrow>
     0 < unat k \<and> unat k \<le> length cs \<and> d = cs ! (unat k - 1)"
  by (auto simp: queue_of_chunks_def)

lemma queue_of_chunks_remove: "queue_of_chunks cs q \<Longrightarrow> queue_of_chunks cs (hm_remove k q)"
  by (auto simp: queue_of_chunks_def hm.get_remove)

lemma queue_of_chunks_insert:
  "queue_of_chunks cs q \<Longrightarrow> 0 < unat k \<Longrightarrow> unat k \<le> length cs \<Longrightarrow>
     queue_of_chunks cs (hm_insert k (cs ! (unat k - 1)) q)"
  by (auto simp: queue_of_chunks_def hm.get_insert)

lemma queue_of_chunks_append: "queue_of_chunks cs q \<Longrightarrow> queue_of_chunks (cs @ ds) q"
  by (force simp: queue_of_chunks_def nth_append)

lemma concat_take_Suc: "n < length cs \<Longrightarrow> concat (take n cs) @ cs ! n = concat (take (Suc n) cs)"
  by (simp add: take_Suc_conv_app_nth)

text \<open>
  Draining a queue of chunks from cursor \<open>n\<close> advances the cursor to some \<open>m\<close> and appends
  exactly the chunks in between.
\<close>

lemma drain_queue_chunks:
  assumes "queue_of_chunks cs q" "length cs < 4294967295" "n \<le> length cs"
  shows "\<exists>m q' r. n \<le> m \<and> m \<le> length cs \<and>
    drain_queue (of_nat n) q b = (of_nat m, q', b @ r) \<and>
    concat (take n cs) @ r = concat (take m cs) \<and> queue_of_chunks cs q'"
  using assms
proof (induction "of_nat n :: u32" q b arbitrary: n rule: drain_queue.induct)
  case (1 q b)
  show ?case
  proof (cases "hm_get (of_nat n + 1 :: u32) q")
    case None
    with 1 show ?thesis
      by (intro exI [of _ n] exI [of _ q] exI [of _ "[]"]) (simp add: drain_queue_absent)
  next
    case (Some d)
    have n: "unat (of_nat n + 1 :: u32) = Suc n"
      using 1(3,4) by (simp add: u32_of_nat_Suc del: of_nat_Suc)
    from queue_of_chunksD [OF 1(2) Some] n have d: "Suc n \<le> length cs" "d = cs ! n" by auto
    from 1(1) [OF Some _ queue_of_chunks_remove [OF 1(2)] 1(3) d(1)]
    obtain m q' r where m: "Suc n \<le> m" "m \<le> length cs"
      "drain_queue (of_nat n + 1) (hm_remove (of_nat n + 1) q) (b @ d) = (of_nat m, q', (b @ d) @ r)"
      "concat (take (Suc n) cs) @ r = concat (take m cs)" "queue_of_chunks cs q'"
      by (auto simp: add.commute)
    moreover have "concat (take n cs) @ d @ r = concat (take m cs)"
      using m(4) d concat_take_Suc [of n cs] by (metis append.assoc Suc_le_lessD)
    ultimately show ?thesis
      by (intro exI [of _ m] exI [of _ q'] exI [of _ "d @ r"])
        (simp add: drain_queue_present [OF Some])
  qed
qed

text \<open>The window the keys of early messages lie in, for a cursor \<open>c\<close>.\<close>

definition early_window :: "u32 \<Rightarrow> (u32, bytes) hashmap \<Rightarrow> bool" where
  "early_window c q \<longleftrightarrow> hm_wf q \<and>
     (\<forall>k d. hm_get k q = Some d \<longrightarrow> unat c + 1 < unat k \<and> unat k < unat c + 20)"

lemma early_window_Nil [simp]: "early_window c []"
  by (simp add: early_window_def)

lemma drain_queue_window:
  assumes "hm_wf q" "unat f < bnd" "bnd < 4294967296"
    and "\<forall>k d. hm_get k q = Some d \<longrightarrow> unat f < unat k \<and> unat k < bnd"
  shows "\<exists>f' q' b'. drain_queue f q b = (f', q', b') \<and> unat f \<le> unat f' \<and> unat f' < bnd \<and>
    hm_wf q' \<and> (\<forall>k d. hm_get k q' = Some d \<longrightarrow> unat f' + 1 < unat k \<and> unat k < bnd)"
  using assms
proof (induction f q b rule: drain_queue.induct)
  case (1 f q b)
  have f1: "unat (f + 1) = Suc (unat f)"
    using 1(3,4) by (simp add: unat_word_ariths)
  show ?case
  proof (cases "hm_get (f + 1) q")
    case None
    have "unat f + 1 < unat k" if "hm_get k q = Some d" for k d
    proof -
      have "k \<noteq> f + 1" using that None by auto
      then have "unat k \<noteq> Suc (unat f)" using f1 by (metis word_unat_eq_iff)
      with 1(5) that show ?thesis by fastforce
    qed
    with None 1(2,3,5) show ?thesis by (auto simp: drain_queue_absent)
  next
    case (Some d)
    let ?q = "hm_remove (f + 1) q"
    have keys: "\<forall>k d. hm_get k ?q = Some d \<longrightarrow> unat (f + 1) < unat k \<and> unat k < bnd"
    proof (intro allI impI)
      fix k d assume "hm_get k ?q = Some d"
      then have k: "hm_get k q = Some d" "k \<noteq> f + 1" by (auto dest: hm.get_remove_SomeD)
      then have "unat k \<noteq> Suc (unat f)" using f1 by (metis word_unat_eq_iff)
      with 1(5) k f1 show "unat (f + 1) < unat k \<and> unat k < bnd" by fastforce
    qed
    have "unat (f + 1) < bnd" using 1(5) Some by auto
    from 1(1) [OF Some hm.wf_remove [OF 1(2)] this 1(4) keys]
    show ?thesis using f1 by (auto simp: drain_queue_present [OF Some])
  qed
qed

subsection \<open>Lemmas: \<open>recv_message\<close> by case\<close>

lemma recv_message_duplicate:
  "sq \<le> get_inbound_received_seq s \<Longrightarrow> recv_message now del sq d s = s"
  by (simp add: recv_message_def)

lemma recv_message_early:
  "\<not> sq \<le> get_inbound_received_seq s \<Longrightarrow> sq > get_inbound_received_seq s + 1 \<Longrightarrow>
    recv_message now del sq d s =
      (if sq < get_inbound_received_seq s + 20
       then s\<lparr>inbound_message_queue := hm_insert sq d (inbound_message_queue s)\<rparr> else s)"
  by (simp add: recv_message_def)

lemma recv_message_next:
  assumes "\<not> sq \<le> get_inbound_received_seq s" "\<not> sq > get_inbound_received_seq s + 1"
    and "is_active now s"
    and "drain_queue (get_inbound_received_seq s + 1) (inbound_message_queue s)
           (inbound_buffer s @ d) = (final_seq, queue, buf)"
  shows "recv_message now del sq d s =
    update_inbound_last_timestamp_to_now now (update_inbound_stream
      (remove_sent_messages_from_queue (update_outbound_delivered_seq del
        (update_inbound_received_seq final_seq
          (s\<lparr>inbound_message_queue := queue, inbound_buffer := buf\<rparr>)))))"
  using assms by (simp add: recv_message_def recv_inbound_buffer_def Let_def)

lemma recv_message_next_inactive:
  "\<not> sq > get_inbound_received_seq s + 1 \<Longrightarrow> \<not> is_active now s \<Longrightarrow>
    recv_message now del sq d s = s"
  by (simp add: recv_message_def Let_def)

lemma recv_message_frame [simp]:
  "outbound_stream (recv_message now del sq d s) = outbound_stream s"
  "outbound_last_seq (recv_message now del sq d s) = outbound_last_seq s"
  "outbound_last_timestamp (recv_message now del sq d s) = outbound_last_timestamp s"
  "status (recv_message now del sq d s) = status s"
  "waker (recv_message now del sq d s) = waker s"
  "remote_address (recv_message now del sq d s) = remote_address s"
  "local_address (recv_message now del sq d s) = local_address s"
  "remote_target (recv_message now del sq d s) = remote_target s"
  "remote_stream_id (recv_message now del sq d s) = remote_stream_id s"
  "my_stream_id (recv_message now del sq d s) = my_stream_id s"
  "remote_public_key (recv_message now del sq d s) = remote_public_key s"
  "my_keypair (recv_message now del sq d s) = my_keypair s"
  by (auto simp: recv_message_def recv_inbound_buffer_def remove_sent_messages_from_queue_def
      stream_defs Let_def split: prod.splits)

text \<open>The window and the growth of the cursor, for any message.\<close>

lemma recv_message_window:
  assumes "early_window (get_inbound_received_seq s) (inbound_message_queue s)"
    and "unat (get_inbound_received_seq s) < 4294967275"
  shows "early_window (get_inbound_received_seq (recv_message now del sq d s))
           (inbound_message_queue (recv_message now del sq d s)) \<and>
    unat (get_inbound_received_seq s) \<le> unat (get_inbound_received_seq (recv_message now del sq d s))"
proof -
  let ?c = "get_inbound_received_seq s"
  have c1: "unat (?c + 1) = unat ?c + 1" and c20: "unat (?c + 20) = unat ?c + 20"
    using assms(2) by (simp_all add: unat_word_ariths)
  consider (dup) "sq \<le> ?c" | (early) "\<not> sq \<le> ?c" "sq > ?c + 1"
    | (off) "\<not> sq \<le> ?c" "\<not> sq > ?c + 1" "\<not> is_active now s"
    | (nxt) "\<not> sq \<le> ?c" "\<not> sq > ?c + 1" "is_active now s" by blast
  then show ?thesis
  proof cases
    case dup
    with assms(1) show ?thesis by (simp add: recv_message_duplicate)
  next
    case early
    have "unat ?c + 1 < unat sq" using early(2) c1 by (simp add: word_less_nat_alt)
    moreover have "sq < ?c + 20 \<Longrightarrow> unat sq < unat ?c + 20" using c20 by (simp add: word_less_nat_alt)
    ultimately show ?thesis
      using assms(1) recv_message_early [OF early, of now del d]
      by (auto simp: early_window_def get_inbound_received_seq_def hm.wf_insert hm.get_insert)
  next
    case off
    with assms(1) show ?thesis by (simp add: recv_message_next_inactive)
  next
    case nxt
    have keys: "hm_wf (inbound_message_queue s)"
      "\<forall>k d. hm_get k (inbound_message_queue s) = Some d \<longrightarrow>
         unat (?c + 1) < unat k \<and> unat k < unat ?c + 20"
      using assms(1) c1 by (auto simp: early_window_def)
    from drain_queue_window [OF keys(1) _ _ keys(2), of "inbound_buffer s @ d"]
    obtain f' q' b' where dr: "drain_queue (?c + 1) (inbound_message_queue s) (inbound_buffer s @ d)
        = (f', q', b')" "unat (?c + 1) \<le> unat f'" "hm_wf q'"
      "\<forall>k d. hm_get k q' = Some d \<longrightarrow> unat f' + 1 < unat k \<and> unat k < unat ?c + 20"
      using c1 assms(2) by auto
    have fields: "get_inbound_received_seq (recv_message now del sq d s) = f'"
      "inbound_message_queue (recv_message now del sq d s) = q'"
      unfolding recv_message_next [OF nxt dr(1)]
      by (simp_all add: stream_defs remove_sent_messages_from_queue_def)
    from dr(2,3,4) c1 show ?thesis
      unfolding fields early_window_def by fastforce
  qed
qed

end
