(* ===== verification/Stream_Outbound.thy ===== *)
theory Stream_Outbound
  imports Stream_Inbound
begin

text \<open>
  \<open>src/src/stream.rs\<close>, the outbound half: framing a write, cutting the outbound bytes into
  numbered messages (\<open>generate_messages\<close>), choosing the messages to send or resend
  (\<open>send_messages\<close>), the control messages, and the call into the Veilid node. An operation
  that sends returns the calls it makes. A task spawned only to send runs after the
  operation; a panic in it ends that task alone (\<open>spawned\<close>).
\<close>

subsection \<open>Encoding and sending\<close>

text \<open>A failed signature is logged and leaves the buffer empty.\<close>

definition encode_message ::
  "ext \<Rightarrow> u32 \<Rightarrow> u32 \<Rightarrow> u64 \<Rightarrow> Address \<Rightarrow> bytes \<Rightarrow> Keypair \<Rightarrow> bytes run" where
  "encode_message x received_seq msg_seq stream_id address msg_data keypair =
     run_bind (to_multiaddr x address) (\<lambda>m. Return
       (case sign x keypair msg_data of
          Some sg \<Rightarrow> payload_encode x \<lparr>
            pl_received_seq = received_seq, pl_msg_seq = msg_seq, pl_stream_id = stream_id,
            pl_signature = sg, pl_address = multiaddr_to_string x m, pl_data = msg_data\<rparr>
        | None \<Rightarrow> []))"

definition send_message_to_remote :: "veilid_api \<Rightarrow> VeilidStream \<Rightarrow> bytes \<Rightarrow> api_call list run" where
  "send_message_to_remote api s message_data = (case remote_target s of
       NodeIdTarget n \<Rightarrow>
         (if routing_context api then
            (if with_safety api then Return [AppMessage SafetyUnsafe (remote_target s) message_data]
             else Panic ''with_safety: unwrap'')
          else Return [])
     | PrivateRoute r \<Rightarrow>
         (if routing_context api
          then Return [AppMessage DefaultSafety (remote_target s) message_data]
          else Return []))"

fun spawned :: "api_call list run \<Rightarrow> api_call list" where
  "spawned (Return calls) = calls"
| "spawned (Panic msg) = []"

definition send_dial :: "ext \<Rightarrow> veilid_api \<Rightarrow> VeilidStream \<Rightarrow> api_call list run" where
  "send_dial x api s =
     (let d = ascii ''DIAL'' @ encode_protobuf x (public_key x (my_keypair s)) in
      run_bind (encode_message x 0 0 (my_stream_id s) (local_address s) d (my_keypair s))
        (send_message_to_remote api s))"

definition send_listen :: "ext \<Rightarrow> veilid_api \<Rightarrow> VeilidStream \<Rightarrow> api_call list run" where
  "send_listen x api s =
     (let d = ascii ''LISTEN'' @ encode_protobuf x (public_key x (my_keypair s)) in
      run_bind (encode_message x 0 0 (my_stream_id s) (local_address s) d (my_keypair s))
        (send_message_to_remote api s))"

definition send_status_if_stale ::
  "ext \<Rightarrow> veilid_api \<Rightarrow> instant \<Rightarrow> VeilidStream \<Rightarrow> api_call list run" where
  "send_status_if_stale x api now s =
     (let timeout_duration = secs (connection_keepalive_timeout SETTINGS) in
      if duration_since now (outbound_last_timestamp s) \<ge> timeout_duration \<and> is_active now s
      then run_bind
             (encode_message x (get_inbound_received_seq s) (get_outbound_last_seq s)
               (my_stream_id s) (local_address s) (ascii ''STATUS'') (my_keypair s))
             (\<lambda>m. Return (spawned (send_message_to_remote api s m)))
      else Return [])"

subsection \<open>Cutting the outbound bytes\<close>

text \<open>
  \<open>insert_to_outbound_stream\<close>: the flag says whether the task that generates and sends
  (\<open>flush\<close>) is spawned.
\<close>

definition insert_to_outbound_stream :: "instant \<Rightarrow> bytes \<Rightarrow> VeilidStream \<Rightarrow> VeilidStream \<times> bool" where
  "insert_to_outbound_stream now d s =
     (let s' = s\<lparr>outbound_stream := outbound_stream s @ u32_to_le_bytes (of_nat (length d)) @ d\<rparr>
      in (s', is_active now s'))"

text \<open>The \<open>while\<close> of \<open>generate_messages\<close>, over the stream, the counter and the queue.\<close>

function generate_loop ::
  "bytes \<Rightarrow> StreamSeq \<Rightarrow> (u32, OutboundMessage) hashmap \<Rightarrow>
     StreamSeq \<times> (u32, OutboundMessage) hashmap" where
  "generate_loop stream last_seq queue =
     (if length stream > 0 then
        let data_limit = transport_stream_packet_data_size_bytes SETTINGS;
            drain_limit = min data_limit (length stream);
            msg = take drain_limit stream;
            stream' = drop drain_limit stream
        in if length msg > 0 then
             let last_seq' = snd (StreamSeq_increment last_seq);
                 sq = StreamSeq_load last_seq'
             in generate_loop stream' last_seq'
                  (hm_insert sq \<lparr>seq = sq, data = msg, last_try_send = None\<rparr> queue)
           else generate_loop stream' last_seq queue
      else (last_seq, queue))"
  by pat_completeness auto
termination
  by (relation "measure (\<lambda>(b, l, q). length b)") auto

declare generate_loop.simps [simp del]

definition generate_messages :: "VeilidStream \<Rightarrow> VeilidStream" where
  "generate_messages s =
     (case generate_loop (outbound_stream s) (outbound_last_seq s) (outbound_message_queue s) of
        (last_seq, queue) \<Rightarrow>
          s\<lparr>outbound_stream := [], outbound_last_seq := last_seq, outbound_message_queue := queue\<rparr>)"

subsection \<open>Sending and resending\<close>

definition due :: "instant \<Rightarrow> OutboundMessage \<Rightarrow> bool" where
  "due now m =
     (let resend_interval = secs (message_retry_timeout SETTINGS);
          last_try = (case last_try_send m of
                        None \<Rightarrow> now - resend_interval - secs 1
                      | Some t \<Rightarrow> t)
      in duration_since now last_try \<ge> resend_interval)"

definition messages_to_send :: "instant \<Rightarrow> VeilidStream \<Rightarrow> OutboundMessage list" where
  "messages_to_send now s = filter (due now) (hm_values (outbound_message_queue s))"

definition mark_sent ::
  "instant \<Rightarrow> OutboundMessage list \<Rightarrow> (u32, OutboundMessage) hashmap \<Rightarrow>
     (u32, OutboundMessage) hashmap" where
  "mark_sent now ms q = fold (\<lambda>m q. case hm_get (seq m) q of
       Some om \<Rightarrow> hm_insert (seq m) (om\<lparr>last_try_send := Some now\<rparr>) q
     | None \<Rightarrow> q) ms q"

fun send_each :: "ext \<Rightarrow> veilid_api \<Rightarrow> VeilidStream \<Rightarrow> OutboundMessage list \<Rightarrow> api_call list run" where
  "send_each x api s [] = Return []"
| "send_each x api s (m # ms) =
     (if length (data m) > veilid_network_message_limit_bytes SETTINGS
      then Panic ''send_messages: data size is larger than veilid network limits''
      else run_bind
        (encode_message x (get_inbound_received_seq s) (seq m) (my_stream_id s)
          (local_address s) (data m) (my_keypair s))
        (\<lambda>message_data. run_bind (send_each x api s ms)
          (\<lambda>calls. Return (spawned (send_message_to_remote api s message_data) @ calls))))"

definition send_messages ::
  "ext \<Rightarrow> veilid_api \<Rightarrow> instant \<Rightarrow> VeilidStream \<Rightarrow> api_call list run \<times> VeilidStream" where
  "send_messages x api now s =
     (let ms = messages_to_send now s;
          s' = s\<lparr>outbound_message_queue := mark_sent now ms (outbound_message_queue s)\<rparr>
      in (send_each x api s' ms, s'))"

definition flush ::
  "ext \<Rightarrow> veilid_api \<Rightarrow> instant \<Rightarrow> VeilidStream \<Rightarrow> api_call list run \<times> VeilidStream" where
  "flush x api now s = send_messages x api now (generate_messages s)"

subsection \<open>Lemmas: cutting\<close>

fun chunks_of :: "nat \<Rightarrow> bytes \<Rightarrow> bytes list" where
  "chunks_of n b = (if b = [] \<or> n = 0 then [] else take n b # chunks_of n (drop n b))"

declare chunks_of.simps [simp del]

lemma chunks_of_Nil [simp]: "chunks_of n [] = []"
  by (simp add: chunks_of.simps)

lemma concat_chunks_of: "0 < n \<Longrightarrow> concat (chunks_of n b) = b"
  by (induction n b rule: chunks_of.induct) (subst chunks_of.simps, auto)

lemma chunks_of_bounds: "0 < n \<Longrightarrow> d \<in> set (chunks_of n b) \<Longrightarrow> 0 < length d \<and> length d \<le> n"
proof (induction n b rule: chunks_of.induct)
  case (1 n b)
  show ?case
    using 1 by (subst (asm) (2) chunks_of.simps) (auto split: if_splits)
qed

lemma length_chunks_of: "0 < n \<Longrightarrow> length (chunks_of n b) * n < length b + n"
proof (induction n b rule: chunks_of.induct)
  case (1 n b)
  show ?case
  proof (cases "length b \<le> n")
    case True
    with 1(2) show ?thesis by (subst chunks_of.simps) (cases b; simp)
  next
    case False
    then have "b \<noteq> []" by auto
    with False 1 show ?thesis by (subst chunks_of.simps) simp
  qed
qed

lemma chunks_of_full:
  "0 < n \<Longrightarrow> Suc i < length (chunks_of n b) \<Longrightarrow> length (chunks_of n b ! i) = n"
proof (induction n b arbitrary: i rule: chunks_of.induct)
  case (1 n b)
  show ?case
  proof (cases "b = []")
    case False
    then have eq: "chunks_of n b = take n b # chunks_of n (drop n b)"
      using 1(2) by (subst chunks_of.simps) simp
    have "drop n b \<noteq> []" using 1(3) eq by auto
    then have "n < length b" by auto
    with 1 False eq show ?thesis by (cases i) auto
  qed (use 1 in simp)
qed

lemma generate_loop_Nil [simp]: "generate_loop [] l q = (l, q)"
  by (simp add: generate_loop.simps)

lemma generate_loop_step:
  assumes "b \<noteq> []"
  shows "generate_loop b l q = generate_loop (drop 32623 b) (snd (StreamSeq_increment l))
    (hm_insert (StreamSeq_load l + 1)
       \<lparr>seq = StreamSeq_load l + 1, data = take 32623 b, last_try_send = None\<rparr> q)"
proof -
  have "take (min 32623 (length b)) b = take 32623 b" "drop (min 32623 (length b)) b = drop 32623 b"
    by (simp_all add: min_def)
  with assms show ?thesis
    by (subst generate_loop.simps) (simp add: Let_def)
qed

text \<open>
  The generated messages are the chunks of the outbound bytes, numbered on from the counter.
\<close>

lemma generate_loop_spec:
  assumes "StreamSeq_load l = of_nat n"
    and "n + length (chunks_of 32623 b) < 4294967296"
    and "generate_loop b l q = (l', q')"
  shows "StreamSeq_load l' = of_nat (n + length (chunks_of 32623 b)) \<and>
    (\<forall>k. hm_get k q' = (if n < unat k \<and> unat k \<le> n + length (chunks_of 32623 b)
       then Some \<lparr>seq = k, data = chunks_of 32623 b ! (unat k - Suc n), last_try_send = None\<rparr>
       else hm_get k q))"
  using assms
proof (induction b arbitrary: n l q rule: length_induct)
  case (1 b)
  show ?case
  proof (cases "b = []")
    case True
    with 1 show ?thesis by auto
  next
    case False
    let ?m = "\<lparr>seq = StreamSeq_load l + 1, data = take 32623 b, last_try_send = None\<rparr>"
    let ?cs = "chunks_of 32623 (drop 32623 b)"
    have cs: "chunks_of 32623 b = take 32623 b # ?cs"
      using False by (subst chunks_of.simps) simp
    have sq: "unat (StreamSeq_load l + 1) = Suc n" "StreamSeq_load l + 1 = of_nat (Suc n)"
      using 1(2,3) cs by (simp_all add: u32_of_nat_Suc del: of_nat_Suc)
    have load: "StreamSeq_load (snd (StreamSeq_increment l)) = of_nat (Suc n)"
      using 1(2) by simp
    have bound: "Suc n + length ?cs < 4294967296" using 1(3) cs by simp
    have len: "length (drop 32623 b) < length b" using False by simp
    have IH: "StreamSeq_load l' = of_nat (Suc n + length ?cs) \<and>
      (\<forall>k. hm_get k q' = (if Suc n < unat k \<and> unat k \<le> Suc n + length ?cs
         then Some \<lparr>seq = k, data = ?cs ! (unat k - Suc (Suc n)), last_try_send = None\<rparr>
         else hm_get k (hm_insert (StreamSeq_load l + 1) ?m q)))"
      by (rule 1(1) [rule_format, OF len load bound])
        (simp add: generate_loop_step [OF False, symmetric] 1(4))
    have first: "k = StreamSeq_load l + 1 \<longleftrightarrow> unat k = Suc n" for k
      using sq(1) by (metis word_unat_eq_iff)
    have shift: "(x # xs) ! (unat k - Suc n) = xs ! (unat k - Suc (Suc n))" if "Suc n < unat k"
      for x :: bytes and xs and k :: u32
      using that by (simp add: nth_Cons' )
    show ?thesis
      using IH sq(1) by (auto simp: cs hm.get_insert first shift) (metis word_unat_eq_iff)
  qed
qed

lemma hm_wf_generate_loop: "hm_wf q \<Longrightarrow> generate_loop b l q = (l', q') \<Longrightarrow> hm_wf q'"
proof (induction b arbitrary: l q rule: length_induct)
  case (1 b)
  show ?case
  proof (cases "b = []")
    case False
    then have "length (drop 32623 b) < length b" by simp
    with 1 generate_loop_step [OF False, of l q] show ?thesis
      by (metis hm.wf_insert)
  qed (use 1 in simp)
qed

text \<open>The queue of undelivered messages: distinct keys, each the number of its message.\<close>

definition outbound_queue_wf :: "(u32, OutboundMessage) hashmap \<Rightarrow> bool" where
  "outbound_queue_wf q \<longleftrightarrow> hm_wf q \<and>
     (\<forall>k m. hm_get k q = Some m \<longrightarrow> seq m = k \<and> 0 < length (data m) \<and> length (data m) \<le> 32623)"

lemma outbound_queue_wf_Nil [simp]: "outbound_queue_wf []"
  by (simp add: outbound_queue_wf_def)

lemma outbound_queue_wf_insert:
  "outbound_queue_wf q \<Longrightarrow> 0 < length d \<Longrightarrow> length d \<le> 32623 \<Longrightarrow>
     outbound_queue_wf (hm_insert k \<lparr>seq = k, data = d, last_try_send = t\<rparr> q)"
  by (simp add: outbound_queue_wf_def hm.get_insert hm.wf_insert)

lemma outbound_queue_wf_retain:
  "outbound_queue_wf q \<Longrightarrow> outbound_queue_wf (hm_retain p q)"
  by (auto simp: outbound_queue_wf_def hm.get_retain_Some hm.wf_retain)

lemma generate_loop_wf:
  "outbound_queue_wf q \<Longrightarrow> generate_loop b l q = (l', q') \<Longrightarrow> outbound_queue_wf q'"
proof (induction b arbitrary: l q rule: length_induct)
  case (1 b)
  show ?case
  proof (cases "b = []")
    case False
    then have "length (drop 32623 b) < length b" and "0 < length (take 32623 b)" by simp_all
    with 1 generate_loop_step [OF False, of l q] outbound_queue_wf_insert [of q "take 32623 b"]
    show ?thesis by (metis length_take min.cobounded2)
  qed (use 1 in simp)
qed

subsection \<open>Lemmas: sending\<close>

lemma due_iff:
  "due now m \<longleftrightarrow> (case last_try_send m of None \<Rightarrow> True | Some t \<Rightarrow> t + secs 5 \<le> now)"
proof -
  have "0 < secs 5" by (simp add: secs_def)
  then show ?thesis
    by (auto simp: due_def Let_def duration_since_ge duration_since_def split: option.splits)
qed

lemma mark_sent_get:
  "hm_get k (mark_sent now ms q) = map_option
     (\<lambda>om. if k \<in> seq ` set ms then om\<lparr>last_try_send := Some now\<rparr> else om) (hm_get k q)"
proof (induction ms arbitrary: q)
  case Nil
  then show ?case by (simp add: mark_sent_def option.map_ident)
next
  case (Cons m ms)
  let ?q = "case hm_get (seq m) q of
       Some om \<Rightarrow> hm_insert (seq m) (om\<lparr>last_try_send := Some now\<rparr>) q | None \<Rightarrow> q"
  have "mark_sent now (m # ms) q = mark_sent now ms ?q"
    by (simp add: mark_sent_def)
  then show ?case
    by (cases "hm_get k q"; cases "hm_get (seq m) q") (auto simp: Cons.IH hm.get_insert)
qed

lemma mark_sent_wf: "hm_wf q \<Longrightarrow> hm_wf (mark_sent now ms q)"
proof (induction ms arbitrary: q)
  case (Cons m ms)
  then show ?case
    by (cases "hm_get (seq m) q") (simp_all add: mark_sent_def hm.wf_insert)
qed (simp add: mark_sent_def)

lemma mark_sent_queue_wf: "outbound_queue_wf q \<Longrightarrow> outbound_queue_wf (mark_sent now ms q)"
  by (auto simp: outbound_queue_wf_def mark_sent_wf mark_sent_get)

lemma messages_to_send_iff:
  "outbound_queue_wf (outbound_message_queue s) \<Longrightarrow>
    m \<in> set (messages_to_send now s) \<longleftrightarrow>
      hm_get (seq m) (outbound_message_queue s) = Some m \<and> due now m"
  by (auto simp: messages_to_send_def outbound_queue_wf_def hm_values_iff)

lemma mark_messages_to_send_get:
  assumes "outbound_queue_wf (outbound_message_queue s)"
  shows "hm_get k (mark_sent now (messages_to_send now s) (outbound_message_queue s)) =
    map_option (\<lambda>om. if due now om then om\<lparr>last_try_send := Some now\<rparr> else om)
      (hm_get k (outbound_message_queue s))"
proof (cases "hm_get k (outbound_message_queue s)")
  case (Some om)
  then have "seq om = k" using assms by (auto simp: outbound_queue_wf_def)
  with Some have "k \<in> seq ` set (messages_to_send now s) \<longleftrightarrow> due now om"
    by (auto simp: messages_to_send_iff [OF assms] image_iff)
  with Some show ?thesis by (simp add: mark_sent_get)
qed (simp add: mark_sent_get)

text \<open>With a parsing multiaddr, encoding returns, and so does a batch of short messages.\<close>

lemma encode_message_Return:
  assumes "multiaddr_law x"
  shows "\<exists>b. encode_message x r k sid a d kp = Return b"
  using to_multiaddr_Return [OF assms, of a] by (auto simp: encode_message_def)

lemma send_each_no_panic:
  assumes "multiaddr_law x" and "\<forall>m \<in> set ms. length (data m) \<le> 32768"
  shows "no_panic (send_each x api s ms)"
  using assms(2)
proof (induction ms)
  case (Cons m ms)
  obtain b where "encode_message x (get_inbound_received_seq s) (seq m) (my_stream_id s)
      (local_address s) (data m) (my_keypair s) = Return b"
    using encode_message_Return [OF assms(1)] by blast
  with Cons show ?case by (auto simp: no_panic_iff)
qed simp

lemma send_messages_no_panic:
  assumes "multiaddr_law x" and wf: "outbound_queue_wf (outbound_message_queue s)"
  shows "no_panic (fst (send_messages x api now s))"
proof -
  have "\<forall>m \<in> set (messages_to_send now s). length (data m) \<le> 32768"
    using messages_to_send_iff [OF wf] wf by (fastforce simp: outbound_queue_wf_def)
  then show ?thesis
    using assms(1) by (simp add: send_messages_def Let_def send_each_no_panic)
qed

text \<open>With the node up, a batch is sent message by message, to the remote target.\<close>

lemma sent_in_order:
  assumes "send_each x api s ms = Return calls" and "routing_context api" "with_safety api"
  shows "\<exists>bs. length bs = length ms \<and> length calls = length ms \<and>
    (\<forall>i < length ms. encode_message x (get_inbound_received_seq s) (seq (ms ! i)) (my_stream_id s)
        (local_address s) (data (ms ! i)) (my_keypair s) = Return (bs ! i) \<and>
      (\<exists>sf. calls ! i = AppMessage sf (remote_target s) (bs ! i)))"
  using assms(1)
proof (induction ms arbitrary: calls)
  case Nil
  then show ?case by simp
next
  case (Cons m ms)
  obtain b cs where b: "encode_message x (get_inbound_received_seq s) (seq m) (my_stream_id s)
      (local_address s) (data m) (my_keypair s) = Return b"
    and cs: "send_each x api s ms = Return cs"
    and calls: "calls = spawned (send_message_to_remote api s b) @ cs"
    using Cons.prems(1) by (auto simp: run_bind_Return_iff split: if_splits)
  obtain bs where bs: "length bs = length ms" "length cs = length ms"
    "\<forall>i < length ms. encode_message x (get_inbound_received_seq s) (seq (ms ! i)) (my_stream_id s)
        (local_address s) (data (ms ! i)) (my_keypair s) = Return (bs ! i) \<and>
      (\<exists>sf. cs ! i = AppMessage sf (remote_target s) (bs ! i))"
    using Cons.IH [OF cs] by blast
  obtain sf where "spawned (send_message_to_remote api s b) = [AppMessage sf (remote_target s) b]"
    using assms(2,3) by (cases "remote_target s") (auto simp: send_message_to_remote_def)
  with b bs calls show ?case
    by (intro exI [of _ "b # bs"]) (auto simp: nth_Cons split: nat.split)
qed

text \<open>
  What goes on the wire decodes to what was encoded, with the public part of the sender's
  address, and its signature verifies under the sender's public key.
\<close>

lemma decode_encode_message:
  assumes laws: "payload_law x" "key_text_law x" "multiaddr_law x" "signature_law x"
    and a: "vld0_address a" and sg: "sign x kp d = Some sg"
    and enc: "encode_message x r k sid a d kp = Return w"
  shows "decode_message x w = Return (Inr (r, k, sid, public_part a, d, sg))"
    and "verify_signature x (Some (public_key x kp)) d sg"
proof -
  obtain m where m: "to_multiaddr x a = Return m" "multiaddr_to_string x m = address_text x a"
    using to_multiaddr_Return [OF laws(3)] by blast
  then have "w = payload_encode x \<lparr>pl_received_seq = r, pl_msg_seq = k, pl_stream_id = sid,
      pl_signature = sg, pl_address = address_text x a, pl_data = d\<rparr>"
    using enc sg by (simp add: encode_message_def)
  then show "decode_message x w = Return (Inr (r, k, sid, public_part a, d, sg))"
    using laws(1) try_from_string_address_text [OF laws(2) a]
    by (simp add: decode_message_def payload_law_def)
  show "verify_signature x (Some (public_key x kp)) d sg"
    using laws(4) sg by (auto simp: verify_signature_def signature_law_def)
qed

lemma generate_messages_frame [simp]:
  "inbound_stream (generate_messages s) = inbound_stream s"
  "inbound_buffer (generate_messages s) = inbound_buffer s"
  "inbound_received_seq (generate_messages s) = inbound_received_seq s"
  "inbound_message_queue (generate_messages s) = inbound_message_queue s"
  "inbound_last_timestamp (generate_messages s) = inbound_last_timestamp s"
  "outbound_stream (generate_messages s) = []"
  "outbound_delivered_seq (generate_messages s) = outbound_delivered_seq s"
  "outbound_last_timestamp (generate_messages s) = outbound_last_timestamp s"
  "status (generate_messages s) = status s"
  "waker (generate_messages s) = waker s"
  "remote_address (generate_messages s) = remote_address s"
  "local_address (generate_messages s) = local_address s"
  "remote_target (generate_messages s) = remote_target s"
  "remote_stream_id (generate_messages s) = remote_stream_id s"
  "my_stream_id (generate_messages s) = my_stream_id s"
  "remote_public_key (generate_messages s) = remote_public_key s"
  "my_keypair (generate_messages s) = my_keypair s"
  by (simp_all add: generate_messages_def split: prod.splits)

lemma generate_messages_spec:
  assumes "get_outbound_last_seq s = of_nat n"
    and "n + length (chunks_of 32623 (outbound_stream s)) < 4294967296"
  shows "get_outbound_last_seq (generate_messages s) =
      of_nat (n + length (chunks_of 32623 (outbound_stream s)))"
    and "hm_get k (outbound_message_queue (generate_messages s)) =
      (if n < unat k \<and> unat k \<le> n + length (chunks_of 32623 (outbound_stream s))
       then Some \<lparr>seq = k, data = chunks_of 32623 (outbound_stream s) ! (unat k - Suc n),
              last_try_send = None\<rparr>
       else hm_get k (outbound_message_queue s))"
proof -
  obtain l q where lq: "generate_loop (outbound_stream s) (outbound_last_seq s)
      (outbound_message_queue s) = (l, q)" by (cases "generate_loop (outbound_stream s)
        (outbound_last_seq s) (outbound_message_queue s)") auto
  have "StreamSeq_load (outbound_last_seq s) = of_nat n"
    using assms(1) by (simp add: get_outbound_last_seq_def)
  from generate_loop_spec [OF this assms(2) lq] lq
  show "get_outbound_last_seq (generate_messages s) =
      of_nat (n + length (chunks_of 32623 (outbound_stream s)))"
    and "hm_get k (outbound_message_queue (generate_messages s)) =
      (if n < unat k \<and> unat k \<le> n + length (chunks_of 32623 (outbound_stream s))
       then Some \<lparr>seq = k, data = chunks_of 32623 (outbound_stream s) ! (unat k - Suc n),
              last_try_send = None\<rparr>
       else hm_get k (outbound_message_queue s))"
    by (simp_all add: generate_messages_def get_outbound_last_seq_def)
qed

lemma generate_messages_wf:
  "outbound_queue_wf (outbound_message_queue s) \<Longrightarrow>
    outbound_queue_wf (outbound_message_queue (generate_messages s))"
  by (auto simp: generate_messages_def split: prod.splits dest: generate_loop_wf)

lemma send_messages_frame:
  assumes "send_messages x api now s = (r, s')"
  shows "s' = s\<lparr>outbound_message_queue :=
    mark_sent now (messages_to_send now s) (outbound_message_queue s)\<rparr>"
  using assms by (auto simp: send_messages_def Let_def)

end
