(* ===== verification/Connection.thy ===== *)
theory Connection
  imports Stream_Outbound
begin

text \<open>
  \<open>src/src/connection.rs\<close>: the connection libp2p reads and writes. It holds a reference to
  its stream; the operations are written over the stream it refers to.
\<close>

record VeilidConnection =
  conn_local_address :: Address
  conn_remote_target :: Target
  conn_stream :: nat

definition connection_new :: "Address \<Rightarrow> Target \<Rightarrow> nat \<Rightarrow> VeilidConnection" where
  "connection_new laddr rtarget stream_ref =
     \<lparr>conn_local_address = laddr, conn_remote_target = rtarget, conn_stream = stream_ref\<rparr>"

definition connect :: "ext \<Rightarrow> veilid_api \<Rightarrow> VeilidStream \<Rightarrow> api_call list run" where
  "connect x api s = send_dial x api s"

text \<open>
  \<open>poll_read\<close> with a buffer of \<open>buf_len\<close> bytes, by the task with waker \<open>w\<close>: bytes, an
  error, or \<open>Pending\<close> with the waker registered.
\<close>

definition poll_read ::
  "instant \<Rightarrow> nat \<Rightarrow> nat \<Rightarrow> VeilidStream \<Rightarrow> (string + bytes) poll \<times> VeilidStream" where
  "poll_read now w buf_len s =
     (if \<not> is_expired now s then
        (case read_inbound_stream buf_len s of
           (Some readable, s') \<Rightarrow> (Ready (Inr readable), s')
         | (None, s') \<Rightarrow> (Pending, s'\<lparr>waker := Some w\<rparr>))
      else (Ready (Inl ''Stream is inactive''), s))"

text \<open>\<open>poll_write\<close>: the count written, and whether a flushing task is spawned.\<close>

definition poll_write ::
  "instant \<Rightarrow> bytes \<Rightarrow> VeilidStream \<Rightarrow> (string + nat) poll \<times> VeilidStream \<times> bool" where
  "poll_write now buf s =
     (if \<not> is_expired now s then
        (let byte_count = length buf;
             (s', spawn) = insert_to_outbound_stream now buf s
         in (Ready (Inr byte_count), s', spawn))
      else (Ready (Inl ''Stream is inactive''), s, False))"

definition poll_flush :: "VeilidStream \<Rightarrow> (string + unit) poll" where
  "poll_flush s = Ready (Inr ())"

definition poll_close :: "VeilidStream \<Rightarrow> (string + unit) poll" where
  "poll_close s = Pending"

subsection \<open>Lemmas\<close>

lemma poll_read_Ready_bytes:
  "poll_read now w n s = (Ready (Inr d), s') \<Longrightarrow> d @ inbound_stream s' = inbound_stream s"
  by (auto simp: poll_read_def read_inbound_stream_def Let_def split: if_splits)

lemma poll_read_Pending_iff:
  "(\<exists>s'. poll_read now w n s = (Pending, s')) \<longleftrightarrow> \<not> is_expired now s \<and> inbound_stream s = []"
  by (auto simp: poll_read_def read_inbound_stream_def Let_def)

lemma poll_write_outbound:
  "poll_write now d s = (Ready (Inr n), s', sp) \<Longrightarrow>
     n = length d \<and> outbound_stream s' = outbound_stream s @ frame d"
  by (auto simp: poll_write_def insert_to_outbound_stream_def Let_def frame_def split: if_splits)

end
