(* ===== verification/Node_Status.thy ===== *)
theory Node_Status
  imports Veilid_Types
begin

text \<open>
  \<open>src/src/node_status.rs\<close>: what the node knows of itself, and \<open>src/src/utils.rs\<close>: reading
  the node's id from a configuration update. A configuration is the answer of its node-id
  group's \<open>get\<close> for each crypto kind.
\<close>

record NodeStatus =
  ns_my_node_id :: "node_id CryptoTyped option"
  ns_is_attached :: bool
  ns_public_internet_ready :: bool

definition node_status_new :: NodeStatus where
  "node_status_new =
     \<lparr>ns_my_node_id = None, ns_is_attached = False, ns_public_internet_ready = False\<rparr>"

definition update_my_node_id :: "node_id CryptoTyped \<Rightarrow> NodeStatus \<Rightarrow> NodeStatus" where
  "update_my_node_id nid ns = ns\<lparr>ns_my_node_id := Some nid\<rparr>"

definition update_is_attached :: "bool \<Rightarrow> NodeStatus \<Rightarrow> NodeStatus" where
  "update_is_attached state ns = ns\<lparr>ns_is_attached := state\<rparr>"

definition update_public_internet_ready :: "bool \<Rightarrow> NodeStatus \<Rightarrow> NodeStatus" where
  "update_public_internet_ready ready ns = ns\<lparr>ns_public_internet_ready := ready\<rparr>"

lemmas node_status_defs = update_my_node_id_def update_is_attached_def
  update_public_internet_ready_def

subsection \<open>Configuration updates\<close>

type_synonym node_id_group = "string \<Rightarrow> node_id CryptoTyped option"

definition get_my_node_id_from_veilid_state_config ::
  "node_id_group \<Rightarrow> node_id CryptoTyped option" where
  "get_my_node_id_from_veilid_state_config crypto_typed_group =
     (case crypto_typed_group VLD0 of Some key \<Rightarrow> Some key | None \<Rightarrow> None)"

text \<open>The two steps the listener takes on an attachment update, as one.\<close>

lemma node_status_set_if_different:
  "(if ns_is_attached ns \<noteq> a then update_is_attached a ns else ns) = ns\<lparr>ns_is_attached := a\<rparr>"
  "(if ns_public_internet_ready ns \<noteq> r then update_public_internet_ready r ns else ns) =
     ns\<lparr>ns_public_internet_ready := r\<rparr>"
  by (auto simp: node_status_defs)

end
