(* ===== verification/Message_Type.thy ===== *)
theory Message_Type
  imports Prelude
begin

text \<open>
  How \<open>convert_update\<close> in \<open>src/src/listener.rs\<close> tells messages apart: by the first letters
  of the data read as text, \<open>String::from_utf8_lossy(&data).starts_with("DIAL")\<close> and so on.
  The standard library's lossy decoder is modelled in full (one replacement character per
  maximal ill-formed sequence), and the lemmas reduce the test to a test of the first bytes,
  which is what makes the slices \<open>&data[..4]\<close> and \<open>&data[..6]\<close> after it safe.
\<close>

subsection \<open>Lossy UTF-8\<close>

definition utf8_cont :: "byte \<Rightarrow> bool" where
  "utf8_cont c \<longleftrightarrow> 0x80 \<le> c \<and> c \<le> 0xBF"

definition utf8_second3 :: "byte \<Rightarrow> byte \<Rightarrow> bool" where
  "utf8_second3 b c \<longleftrightarrow>
     (b = 0xE0 \<and> 0xA0 \<le> c \<and> c \<le> 0xBF) \<or> (0xE1 \<le> b \<and> b \<le> 0xEC \<and> utf8_cont c) \<or>
     (b = 0xED \<and> 0x80 \<le> c \<and> c \<le> 0x9F) \<or> (0xEE \<le> b \<and> b \<le> 0xEF \<and> utf8_cont c)"

definition utf8_second4 :: "byte \<Rightarrow> byte \<Rightarrow> bool" where
  "utf8_second4 b c \<longleftrightarrow>
     (b = 0xF0 \<and> 0x90 \<le> c \<and> c \<le> 0xBF) \<or> (0xF1 \<le> b \<and> b \<le> 0xF3 \<and> utf8_cont c) \<or>
     (b = 0xF4 \<and> 0x80 \<le> c \<and> c \<le> 0x8F)"

definition replacement :: nat where
  "replacement = 0xFFFD"

fun from_utf8_lossy :: "bytes \<Rightarrow> nat list" where
  "from_utf8_lossy [] = []"
| "from_utf8_lossy (b # bs) =
     (if b < 0x80 then unat b # from_utf8_lossy bs
      else if 0xC2 \<le> b \<and> b \<le> 0xDF then
        (case bs of
           [] \<Rightarrow> [replacement]
         | c # cs \<Rightarrow>
             if utf8_cont c
             then ((unat b - 0xC0) * 64 + (unat c - 0x80)) # from_utf8_lossy cs
             else replacement # from_utf8_lossy (c # cs))
      else if 0xE0 \<le> b \<and> b \<le> 0xEF then
        (case bs of
           [] \<Rightarrow> [replacement]
         | c # cs \<Rightarrow>
             if utf8_second3 b c then
               (case cs of
                  [] \<Rightarrow> [replacement]
                | d # ds \<Rightarrow>
                    if utf8_cont d
                    then ((unat b - 0xE0) * 4096 + (unat c - 0x80) * 64 + (unat d - 0x80))
                           # from_utf8_lossy ds
                    else replacement # from_utf8_lossy (d # ds))
             else replacement # from_utf8_lossy (c # cs))
      else if 0xF0 \<le> b \<and> b \<le> 0xF4 then
        (case bs of
           [] \<Rightarrow> [replacement]
         | c # cs \<Rightarrow>
             if utf8_second4 b c then
               (case cs of
                  [] \<Rightarrow> [replacement]
                | d # ds \<Rightarrow>
                    if utf8_cont d then
                      (case ds of
                         [] \<Rightarrow> [replacement]
                       | e # es \<Rightarrow>
                           if utf8_cont e
                           then ((unat b - 0xF0) * 262144 + (unat c - 0x80) * 4096
                                   + (unat d - 0x80) * 64 + (unat e - 0x80)) # from_utf8_lossy es
                           else replacement # from_utf8_lossy (e # es))
                    else replacement # from_utf8_lossy (d # ds))
             else replacement # from_utf8_lossy (c # cs))
      else replacement # from_utf8_lossy bs)"

definition starts_with :: "nat list \<Rightarrow> string \<Rightarrow> bool" where
  "starts_with text lit \<longleftrightarrow> take (length lit) text = map of_char lit"

subsection \<open>Message types\<close>

datatype MessageType = DialMsg | ListenMsg | StatusMsg | PingMsg | DataMsg

definition message_type :: "bytes \<Rightarrow> MessageType" where
  "message_type d =
     (if starts_with (from_utf8_lossy d) ''DIAL'' then DialMsg
      else if starts_with (from_utf8_lossy d) ''LISTEN'' then ListenMsg
      else if starts_with (from_utf8_lossy d) ''STATUS'' then StatusMsg
      else if starts_with (from_utf8_lossy d) ''PING'' then PingMsg
      else DataMsg)"

subsection \<open>Lemmas\<close>

lemma from_utf8_lossy_high:
  assumes "\<not> b < 0x80"
  shows "\<exists>n ns. from_utf8_lossy (b # bs) = n # ns \<and> 128 \<le> n"
proof -
  have c2: "64 * (unat b - 192) \<ge> 128" if "0xC2 \<le> b"
    using that by (simp add: word_le_nat_alt)
  have s3: "(unat b - 0xE0) * 4096 + (unat c - 0x80) * 64 \<ge> 128" if "utf8_second3 b c" for c
    using that unfolding utf8_second3_def utf8_cont_def
    by (elim disjE) (auto simp: word_le_nat_alt)
  have s4: "(unat b - 0xF0) * 262144 + (unat c - 0x80) * 4096 \<ge> 128" if "utf8_second4 b c" for c
    using that unfolding utf8_second4_def utf8_cont_def
    by (elim disjE) (auto simp: word_le_nat_alt)
  show ?thesis
    using assms c2 s3 s4
    by (simp add: replacement_def split: list.split) (auto simp: trans_le_add1 mult.commute)
qed

lemma unat_of_char: "unat (of_char c :: byte) = of_char c"
  by (cases c) (simp add: unat_of_nat of_char_def horner_sum_simps)

text \<open>An ASCII prefix of the text is the same prefix of the bytes.\<close>

lemma starts_with_lossy_iff:
  assumes "list_all (\<lambda>c. of_char c < (128 :: nat)) lit"
  shows "starts_with (from_utf8_lossy d) lit \<longleftrightarrow> take (length lit) d = ascii lit"
  using assms
proof (induction lit arbitrary: d)
  case Nil
  then show ?case by (simp add: starts_with_def ascii_def)
next
  case (Cons c lit)
  show ?case
  proof (cases d)
    case Nil
    then show ?thesis by (simp add: starts_with_def ascii_def)
  next
    case (Cons b bs)
    have eq: "unat b = of_char c \<longleftrightarrow> b = of_char c"
      by (metis unat_of_char word_unat_eq_iff)
    show ?thesis
    proof (cases "b < 0x80")
      case True
      then show ?thesis
        using Cons.IH [of bs] Cons.prems Cons eq by (simp add: starts_with_def ascii_def)
    next
      case False
      obtain n ns where n: "from_utf8_lossy (b # bs) = n # ns" "128 \<le> n"
        using from_utf8_lossy_high [OF False] by blast
      have "\<not> of_char c = b"
        using False Cons.prems unat_of_char [of c] by (auto simp: word_less_nat_alt)
      then show ?thesis
        using n Cons.prems Cons by (auto simp: starts_with_def ascii_def)
    qed
  qed
qed

lemma starts_with_control:
  "starts_with (from_utf8_lossy d) ''DIAL'' \<longleftrightarrow> take 4 d = ascii ''DIAL''"
  "starts_with (from_utf8_lossy d) ''LISTEN'' \<longleftrightarrow> take 6 d = ascii ''LISTEN''"
  "starts_with (from_utf8_lossy d) ''STATUS'' \<longleftrightarrow> take 6 d = ascii ''STATUS''"
  "starts_with (from_utf8_lossy d) ''PING'' \<longleftrightarrow> take 4 d = ascii ''PING''"
  by ((subst starts_with_lossy_iff, simp add: of_char_def, simp add: numeral_eq_Suc)+)

lemma message_type_bytes:
  "message_type d =
     (if take 4 d = ascii ''DIAL'' then DialMsg
      else if take 6 d = ascii ''LISTEN'' then ListenMsg
      else if take 6 d = ascii ''STATUS'' then StatusMsg
      else if take 4 d = ascii ''PING'' then PingMsg
      else DataMsg)"
  by (simp add: message_type_def starts_with_control)

lemma message_type_control:
  "message_type (ascii ''DIAL'' @ d) = DialMsg"
  "message_type (ascii ''LISTEN'' @ d) = ListenMsg"
  "message_type (ascii ''STATUS'' @ d) = StatusMsg"
  "message_type (ascii ''PING'' @ d) = PingMsg"
  by (simp_all add: message_type_bytes ascii_def of_char_def)

end
