(* ===== verification/Listener_State.thy ===== *)
theory Listener_State
  imports Connection Node_Status Message_Type
begin

text \<open>
  \<open>src/src/listener.rs\<close>, the data: the listener's record, the updates it receives and the
  events it reports; the shape of a handler (a computation that may panic, changes the
  listener and calls the node); and the streams it keeps. Streams are shared objects
  (\<open>Arc<VeilidStream>\<close>): the listener's map and the connections hold references into a
  store, so a connection keeps its stream when the map's entry is replaced or removed.
\<close>

subsection \<open>Data\<close>

datatype ListenerStatus = Offline | Online

datatype TargetStatus = TargetNone | Republishing utc | TargetActive utc

datatype AttachmentState =
    Detached | Attaching | AttachedWeak | AttachedGood | AttachedStrong
  | FullyAttached | OverAttached | Detaching

datatype VeilidUpdate =
    UpdateLog
  | UpdateAppMessage bytes
  | UpdateAppCall
  | UpdateAttachment AttachmentState bool
  | UpdateNetwork
  | UpdateConfig node_id_group
  | UpdateRouteChange "bytes list" "bytes list"
  | UpdateValueChange
  | UpdateShutdown

datatype transport_event =
    NewAddress nat multiaddr
  | Incoming nat VeilidConnection multiaddr multiaddr

text \<open>
  \<open>rx\<close> is the channel of updates (\<open>rx_closed\<close> once the sender is gone), \<open>async_rx\<close> the
  channel of results, \<open>tasks\<close> the spawned conversions that have not run.
\<close>

record Listener =
  transport_type :: VeilidTransportType
  l_id :: nat
  l_local_address :: "Address option"
  l_local_target :: "Target option \<times> TargetStatus"
  rx :: "VeilidUpdate list"
  rx_closed :: bool
  tasks :: "VeilidUpdate list"
  async_rx :: "transport_event option poll list"
  node_status :: NodeStatus
  l_status :: ListenerStatus
  streams :: "(Address, nat) hashmap"
  store :: "(nat, VeilidStream) hashmap"
  next_ref :: nat
  l_my_keypair :: Keypair

definition listener_new ::
  "VeilidTransportType \<Rightarrow> nat \<Rightarrow> NodeStatus \<Rightarrow> Keypair \<Rightarrow> Listener" where
  "listener_new tt lid ns keypair = \<lparr>
     transport_type = tt,
     l_id = lid,
     l_local_address = None,
     l_local_target = (None, TargetNone),
     rx = [],
     rx_closed = False,
     tasks = [],
     async_rx = [],
     node_status = ns,
     l_status = Offline,
     streams = [],
     store = [],
     next_ref = 0,
     l_my_keypair = keypair\<rparr>"

subsection \<open>Handlers\<close>

type_synonym 'a act = "Listener \<Rightarrow> 'a run \<times> Listener \<times> api_call list"

definition act_return :: "'a \<Rightarrow> 'a act" where
  "act_return a = (\<lambda>L. (Return a, L, []))"

definition act_then :: "'a act \<Rightarrow> ('a \<Rightarrow> 'b act) \<Rightarrow> 'b act" where
  "act_then m f = (\<lambda>L. case m L of
       (Return a, L', calls) \<Rightarrow>
         (case f a L' of (r, L'', calls') \<Rightarrow> (r, L'', calls @ calls'))
     | (Panic e, L', calls) \<Rightarrow> (Panic e, L', calls))"

definition act_get :: "(Listener \<Rightarrow> 'a) \<Rightarrow> 'a act" where
  "act_get f = (\<lambda>L. (Return (f L), L, []))"

definition act_modify :: "(Listener \<Rightarrow> Listener) \<Rightarrow> unit act" where
  "act_modify f = (\<lambda>L. (Return (), f L, []))"

definition act_lift :: "'a run \<Rightarrow> 'a act" where
  "act_lift r = (\<lambda>L. (r, L, []))"

definition act_calls :: "api_call list run \<Rightarrow> unit act" where
  "act_calls r = (\<lambda>L. case r of Return calls \<Rightarrow> (Return (), L, calls) | Panic e \<Rightarrow> (Panic e, L, []))"

lemmas act_defs = act_return_def act_then_def act_get_def act_modify_def act_lift_def act_calls_def

lemma act_then_return [simp]: "act_then (act_return a) f = f a"
  by (simp add: act_defs)

lemma act_then_assoc: "act_then (act_then m f) g = act_then m (\<lambda>a. act_then (f a) g)"
  by (rule ext) (auto simp: act_then_def split: prod.splits run.splits)

subsection \<open>The store\<close>

definition stream_at :: "nat \<Rightarrow> Listener \<Rightarrow> VeilidStream option" where
  "stream_at r L = hm_get r (store L)"

definition set_stream :: "nat \<Rightarrow> VeilidStream \<Rightarrow> Listener \<Rightarrow> Listener" where
  "set_stream r s L = L\<lparr>store := hm_insert r s (store L)\<rparr>"

definition on_stream :: "nat \<Rightarrow> (VeilidStream \<Rightarrow> VeilidStream) \<Rightarrow> Listener \<Rightarrow> Listener" where
  "on_stream r f L = (case stream_at r L of Some s \<Rightarrow> set_stream r (f s) L | None \<Rightarrow> L)"

text \<open>\<open>streams.lock().get(&address)\<close>: the reference and the object it refers to.\<close>

definition lookup_stream :: "Address \<Rightarrow> Listener \<Rightarrow> (nat \<times> VeilidStream) option" where
  "lookup_stream a L = (case hm_get a (streams L) of
       None \<Rightarrow> None
     | Some r \<Rightarrow> (case stream_at r L of None \<Rightarrow> None | Some s \<Rightarrow> Some (r, s)))"

text \<open>
  Well-formed: references in the map are allocated, the stream under an address has that
  remote address, and new references are fresh.
\<close>

definition listener_wf :: "Listener \<Rightarrow> bool" where
  "listener_wf L \<longleftrightarrow>
     hm_wf (streams L) \<and> hm_wf (store L) \<and>
     (\<forall>a r. hm_get a (streams L) = Some r \<longrightarrow>
        (\<exists>s. hm_get r (store L) = Some s \<and> remote_address s = a)) \<and>
     (\<forall>r s. hm_get r (store L) = Some s \<longrightarrow> r < next_ref L)"

lemma listener_wf_new [simp]: "listener_wf (listener_new tt lid ns kp)"
  by (simp add: listener_wf_def listener_new_def)

lemma listener_wf_lookup:
  "listener_wf L \<Longrightarrow> hm_get a (streams L) = Some r \<Longrightarrow>
     \<exists>s. lookup_stream a L = Some (r, s) \<and> stream_at r L = Some s \<and> remote_address s = a"
  by (fastforce simp: listener_wf_def lookup_stream_def stream_at_def)

lemma lookup_streamD:
  "lookup_stream a L = Some (r, s) \<Longrightarrow> hm_get a (streams L) = Some r \<and> stream_at r L = Some s"
  by (auto simp: lookup_stream_def split: option.splits)

lemma stream_at_set_stream [simp]:
  "stream_at r' (set_stream r s L) = (if r' = r then Some s else stream_at r' L)"
  by (simp add: stream_at_def set_stream_def hm.get_insert)

lemma set_stream_frame [simp]:
  "streams (set_stream r s L) = streams L"
  "next_ref (set_stream r s L) = next_ref L"
  "l_local_address (set_stream r s L) = l_local_address L"
  "l_local_target (set_stream r s L) = l_local_target L"
  "node_status (set_stream r s L) = node_status L"
  "l_status (set_stream r s L) = l_status L"
  "l_id (set_stream r s L) = l_id L"
  "l_my_keypair (set_stream r s L) = l_my_keypair L"
  "transport_type (set_stream r s L) = transport_type L"
  by (simp_all add: set_stream_def)

lemma listener_wf_set_stream:
  "listener_wf L \<Longrightarrow> stream_at r L = Some s \<Longrightarrow> remote_address s' = remote_address s \<Longrightarrow>
     listener_wf (set_stream r s' L)"
  by (fastforce simp: listener_wf_def set_stream_def stream_at_def hm.get_insert hm.wf_insert)

lemma stream_at_on_stream [simp]:
  "stream_at r' (on_stream r f L) =
     (if r' = r then map_option f (stream_at r L) else stream_at r' L)"
  by (auto simp: on_stream_def split: option.splits)

lemma on_stream_frame [simp]:
  "streams (on_stream r f L) = streams L"
  "next_ref (on_stream r f L) = next_ref L"
  "l_local_address (on_stream r f L) = l_local_address L"
  "l_local_target (on_stream r f L) = l_local_target L"
  "node_status (on_stream r f L) = node_status L"
  "l_status (on_stream r f L) = l_status L"
  "l_id (on_stream r f L) = l_id L"
  "l_my_keypair (on_stream r f L) = l_my_keypair L"
  "transport_type (on_stream r f L) = transport_type L"
  by (simp_all add: on_stream_def split: option.splits)

lemma listener_wf_on_stream:
  "listener_wf L \<Longrightarrow> (\<And>s. remote_address (f s) = remote_address s) \<Longrightarrow> listener_wf (on_stream r f L)"
  by (auto simp: on_stream_def split: option.splits intro: listener_wf_set_stream)

lemma set_stream_twice [simp]: "set_stream r s (set_stream r t L) = set_stream r s L"
  by (simp add: set_stream_def hm_insert_twice)

lemma on_stream_same: "stream_at r L = Some s \<Longrightarrow> f s = s \<Longrightarrow> on_stream r f L = L"
  by (simp add: on_stream_def set_stream_def stream_at_def hm_insert_same)

lemma on_stream_on_stream [simp]: "on_stream r f (on_stream r g L) = on_stream r (\<lambda>s. f (g s)) L"
  by (simp add: on_stream_def split: option.split)

lemma on_stream_set_stream [simp]: "on_stream r f (set_stream r s L) = set_stream r (f s) L"
  by (simp add: on_stream_def)

lemma on_stream_at: "stream_at r L = Some s \<Longrightarrow> on_stream r f L = set_stream r (f s) L"
  by (simp add: on_stream_def)

lemma lookup_stream_on_stream:
  "lookup_stream a (on_stream r f L) =
     (case lookup_stream a L of
        Some (r', s) \<Rightarrow> Some (r', if r' = r then f s else s) | None \<Rightarrow> None)"
  by (auto simp: lookup_stream_def split: option.splits)

text \<open>A new stream under an address, as \<open>create_stream\<close> and \<open>dial\<close> insert it.\<close>

definition add_stream :: "Address \<Rightarrow> VeilidStream \<Rightarrow> Listener \<Rightarrow> Listener" where
  "add_stream a s L =
     L\<lparr>store := hm_insert (next_ref L) s (store L), next_ref := Suc (next_ref L),
       streams := hm_insert a (next_ref L) (streams L)\<rparr>"

lemma add_stream_frame [simp]:
  "l_local_address (add_stream a s L) = l_local_address L"
  "l_local_target (add_stream a s L) = l_local_target L"
  "node_status (add_stream a s L) = node_status L"
  "l_status (add_stream a s L) = l_status L"
  "l_id (add_stream a s L) = l_id L"
  "l_my_keypair (add_stream a s L) = l_my_keypair L"
  "transport_type (add_stream a s L) = transport_type L"
  "next_ref (add_stream a s L) = Suc (next_ref L)"
  by (simp_all add: add_stream_def)

lemma add_stream_lookup:
  "listener_wf L \<Longrightarrow> lookup_stream a' (add_stream a s L) =
     (if a' = a then Some (next_ref L, s) else lookup_stream a' L)"
  by (auto simp: lookup_stream_def add_stream_def stream_at_def hm.get_insert listener_wf_def
      split: option.splits)

lemma add_stream_stream_at:
  "stream_at r (add_stream a s L) = (if r = next_ref L then Some s else stream_at r L)"
  by (simp add: add_stream_def stream_at_def hm.get_insert)

lemma listener_wf_add_stream:
  assumes "listener_wf L" and "remote_address s = a"
  shows "listener_wf (add_stream a s L)"
proof -
  let ?L = "add_stream a s L"
  note wf = assms(1) [unfolded listener_wf_def]
  have old: "r < next_ref L" if "hm_get a' (streams L) = Some r" for a' r
    using wf that by fastforce
  have "\<exists>s'. hm_get r (store ?L) = Some s' \<and> remote_address s' = a'"
    if "hm_get a' (streams ?L) = Some r" for a' r
  proof (cases "a' = a")
    case True
    with that assms(2) show ?thesis by (auto simp: add_stream_def hm.get_insert)
  next
    case False
    with that have "hm_get a' (streams L) = Some r" by (simp add: add_stream_def hm.get_insert)
    with wf old [OF this] show ?thesis by (auto simp: add_stream_def hm.get_insert)
  qed
  moreover have "r < next_ref ?L" if "hm_get r (store ?L) = Some s'" for r s'
    using wf that by (auto simp: add_stream_def hm.get_insert less_SucI split: if_splits)
  moreover have "hm_wf (streams ?L)" "hm_wf (store ?L)"
    using wf by (simp_all add: add_stream_def hm.wf_insert)
  ultimately show ?thesis by (simp add: listener_wf_def)
qed

end
