(* ===== verification/Listener.thy ===== *)
theory Listener
  imports Listener_State
begin

text \<open>
  \<open>src/src/listener.rs\<close>, the handlers: \<open>create_stream\<close>, the conversion of an update into an
  event (\<open>convert_update\<close>, here one definition per arm), and \<open>get_next_event\<close>, which spawns
  conversions and hands out their results. The lemmas say what the arms do to a stream and
  that the listener stays well-formed.
\<close>

subsection \<open>Creating and announcing a stream\<close>

definition create_stream ::
  "veilid_api \<Rightarrow> clock \<Rightarrow> nat \<Rightarrow> Address \<Rightarrow> Address \<Rightarrow> u64 \<Rightarrow> Keypair \<Rightarrow> (string + nat) act" where
  "create_stream api clk lid laddr raddr rid keypair = (\<lambda>L.
     case address_to_target api raddr of
       (Some rtarget, calls) \<Rightarrow>
         (case stream_new clk lid laddr raddr rtarget rid keypair of
            Return s \<Rightarrow> (Return (Inr (next_ref L)), add_stream raddr s L, calls)
          | Panic e \<Rightarrow> (Panic e, L, calls))
     | (None, calls) \<Rightarrow> (Return (Inl ''Failed to fetch remote_target''), L, calls))"

definition activate :: "ext \<Rightarrow> nat \<Rightarrow> VeilidStream \<Rightarrow> transport_event option poll run" where
  "activate x r s =
     run_bind (to_multiaddr x (local_address s)) (\<lambda>local_addr.
     run_bind (to_multiaddr x (remote_address s)) (\<lambda>remote_addr.
       Return (Ready (Some (Incoming (listener_id s)
         (connection_new (local_address s) (remote_target s) r) local_addr remote_addr)))))"

text \<open>
  \<open>if &data[..n] == tag { try_decode_protobuf(&data[n..]) ... update_remote_public_key }\<close>,
  with the panic of a slice that is too long.
\<close>

definition extract_key :: "ext \<Rightarrow> string \<Rightarrow> bytes \<Rightarrow> nat \<Rightarrow> unit act" where
  "extract_key x tag d r =
     (if length d < length tag then act_lift (Panic ''slice index out of range'')
      else act_modify (on_stream r (\<lambda>s.
        if take (length tag) d = ascii tag
        then (case try_decode_protobuf x (drop (length tag) d) of
                Some pk \<Rightarrow> update_remote_public_key pk s
              | None \<Rightarrow> s)
        else s)))"

definition with_stream :: "nat \<Rightarrow> (VeilidStream \<Rightarrow> 'a act) \<Rightarrow> 'a act" where
  "with_stream r f = (\<lambda>L. case stream_at r L of
       Some s \<Rightarrow> f s L
     | None \<Rightarrow> (Panic ''no such stream'', L, []))"

subsection \<open>Messages\<close>

text \<open>No stream for the sender's address.\<close>

definition accept_dial ::
  "ext \<Rightarrow> veilid_api \<Rightarrow> clock \<Rightarrow> u64 \<Rightarrow> bytes \<Rightarrow> (VeilidStream \<Rightarrow> VeilidStream) \<Rightarrow> nat \<Rightarrow>
     transport_event option poll act" where
  "accept_dial x api clk stream_id d touch r =
     act_then (extract_key x ''DIAL'' d r) (\<lambda>_.
     act_then (act_modify (on_stream r (touch \<circ> update_status Listen
                            \<circ> update_remote_stream_id stream_id))) (\<lambda>_.
     act_then (with_stream r (\<lambda>s. act_calls (send_listen x api s))) (\<lambda>_.
       with_stream r (\<lambda>s. act_lift (activate x r s)))))"

definition handle_no_stream ::
  "ext \<Rightarrow> veilid_api \<Rightarrow> clock \<Rightarrow> nat \<Rightarrow> Address \<Rightarrow> MessageType \<Rightarrow> u64 \<Rightarrow> Address \<Rightarrow> bytes \<Rightarrow>
     Keypair \<Rightarrow> transport_event option poll act" where
  "handle_no_stream x api clk lid laddr mt stream_id raddr d keypair = (case mt of
       DialMsg \<Rightarrow>
         act_then (create_stream api clk lid laddr raddr stream_id keypair) (\<lambda>res. case res of
             Inr r \<Rightarrow> accept_dial x api clk stream_id d
                        (update_inbound_last_timestamp_to_now (instant_now clk)) r
           | Inl e \<Rightarrow> act_return Pending)
     | ListenMsg \<Rightarrow> act_return Pending
     | StatusMsg \<Rightarrow> act_return Pending
     | DataMsg \<Rightarrow> act_return Pending
     | PingMsg \<Rightarrow>
         act_then (act_modify (\<lambda>L. L\<lparr>l_local_target :=
             (fst (l_local_target L), TargetActive (utc_now clk))\<rparr>)) (\<lambda>_. act_return Pending))"

text \<open>A stream in state \<open>Dial\<close>.\<close>

definition handle_dial ::
  "ext \<Rightarrow> veilid_api \<Rightarrow> clock \<Rightarrow> Address \<Rightarrow> MessageType \<Rightarrow> u64 \<Rightarrow> Address \<Rightarrow> bytes \<Rightarrow> nat \<Rightarrow>
     transport_event option poll act" where
  "handle_dial x api clk laddr mt stream_id raddr d r = (case mt of
       DialMsg \<Rightarrow>
         act_then (extract_key x ''DIAL'' d r) (\<lambda>_.
           case address_cmp x raddr laddr of
             Less \<Rightarrow>
               act_then (act_modify (on_stream r (update_status Dial
                   \<circ> update_inbound_last_timestamp_to_now (instant_now clk)))) (\<lambda>_.
               act_then (with_stream r (\<lambda>s. act_calls (send_dial x api s))) (\<lambda>_.
                 act_return Pending))
           | Equal \<Rightarrow> act_return (Ready None)
           | Greater \<Rightarrow>
               act_then (act_modify (on_stream r
                   (update_inbound_last_timestamp_to_now (instant_now clk)
                     \<circ> update_status Listen \<circ> update_remote_stream_id stream_id))) (\<lambda>_.
               act_then (with_stream r (\<lambda>s. act_calls (send_listen x api s))) (\<lambda>_.
                 with_stream r (\<lambda>s. act_lift (activate x r s)))))
     | ListenMsg \<Rightarrow>
         act_then (extract_key x ''LISTEN'' d r) (\<lambda>_.
         act_then (act_modify (on_stream r (generate_messages \<circ> update_status Active
             \<circ> update_remote_stream_id stream_id
             \<circ> update_inbound_last_timestamp_to_now (instant_now clk)))) (\<lambda>_.
         act_then (with_stream r (\<lambda>s. case send_messages x api (instant_now clk) s of
             (calls, s') \<Rightarrow> act_then (act_modify (set_stream r s')) (\<lambda>_. act_calls calls))) (\<lambda>_.
           act_return Pending)))
     | StatusMsg \<Rightarrow> act_return Pending
     | DataMsg \<Rightarrow> act_return Pending
     | PingMsg \<Rightarrow> act_return Pending)"

text \<open>A stream in state \<open>Listen\<close>.\<close>

definition handle_listen ::
  "ext \<Rightarrow> veilid_api \<Rightarrow> clock \<Rightarrow> MessageType \<Rightarrow> u64 \<Rightarrow> bool \<Rightarrow> u32 \<Rightarrow> u32 \<Rightarrow> bytes \<Rightarrow> nat \<Rightarrow>
     transport_event option poll act" where
  "handle_listen x api clk mt stream_id is_signed delivered_seq sq d r = (case mt of
       DialMsg \<Rightarrow>
         act_then (act_modify (on_stream r (update_remote_stream_id stream_id))) (\<lambda>_.
         act_then (with_stream r (\<lambda>s. act_calls (send_listen x api s))) (\<lambda>_.
           act_return Pending))
     | ListenMsg \<Rightarrow> act_return Pending
     | StatusMsg \<Rightarrow> act_return Pending
     | DataMsg \<Rightarrow>
         act_then (act_modify (on_stream r (\<lambda>s.
           if get_remote_stream_id s = stream_id then
             (if is_signed
              then recv_message (instant_now clk) delivered_seq sq d (update_status Active s)
              else s)
           else s))) (\<lambda>_. act_return Pending)
     | PingMsg \<Rightarrow> act_return Pending)"

text \<open>A stream in state \<open>Active\<close>. Status and data messages change only the stream.\<close>

definition active_status :: "u32 \<Rightarrow> VeilidStream \<Rightarrow> VeilidStream" where
  "active_status delivered_seq s =
     remove_sent_messages_from_queue (update_outbound_delivered_seq delivered_seq s)"

definition active_data ::
  "instant \<Rightarrow> bool \<Rightarrow> u32 \<Rightarrow> u32 \<Rightarrow> bytes \<Rightarrow> VeilidStream \<Rightarrow> VeilidStream" where
  "active_data now is_signed delivered_seq sq d s =
     (if is_signed then recv_message now delivered_seq sq d (update_status Active s) else s)"

definition handle_active ::
  "ext \<Rightarrow> veilid_api \<Rightarrow> clock \<Rightarrow> nat \<Rightarrow> Address \<Rightarrow> MessageType \<Rightarrow> u64 \<Rightarrow> Address \<Rightarrow> bool \<Rightarrow>
     u32 \<Rightarrow> u32 \<Rightarrow> bytes \<Rightarrow> Keypair \<Rightarrow> nat \<Rightarrow> transport_event option poll act" where
  "handle_active x api clk lid laddr mt stream_id raddr is_signed delivered_seq sq d keypair r =
     (case mt of
       DialMsg \<Rightarrow>
         with_stream r (\<lambda>s.
           if get_remote_stream_id s < stream_id then
             act_then (create_stream api clk lid laddr raddr stream_id keypair) (\<lambda>res. case res of
                 Inr r' \<Rightarrow> accept_dial x api clk stream_id d (\<lambda>s. s) r'
               | Inl e \<Rightarrow> act_return Pending)
           else act_return Pending)
     | ListenMsg \<Rightarrow> act_return Pending
     | StatusMsg \<Rightarrow>
         act_then (act_modify (on_stream r (active_status delivered_seq))) (\<lambda>_. act_return Pending)
     | DataMsg \<Rightarrow>
         act_then (act_modify (on_stream r
             (active_data (instant_now clk) is_signed delivered_seq sq d))) (\<lambda>_. act_return Pending)
     | PingMsg \<Rightarrow> act_return Pending)"

text \<open>The arm for \<open>AppMessage\<close>, once the packet is decoded.\<close>

definition handle_stream ::
  "ext \<Rightarrow> veilid_api \<Rightarrow> clock \<Rightarrow> Address \<Rightarrow> u64 \<Rightarrow> Address \<Rightarrow> bool \<Rightarrow> u32 \<Rightarrow> u32 \<Rightarrow> bytes \<Rightarrow>
     Keypair \<Rightarrow> nat \<Rightarrow> nat \<Rightarrow> transport_event option poll act" where
  "handle_stream x api clk laddr stream_id raddr is_signed delivered_seq sq d keypair lid r =
     with_stream r (\<lambda>s.
       if get_remote_stream_id s \<noteq> 0 \<and> stream_id < get_remote_stream_id s
       then act_return Pending
       else (case status s of
           Dial \<Rightarrow> handle_dial x api clk laddr (message_type d) stream_id raddr d r
         | Listen \<Rightarrow>
             handle_listen x api clk (message_type d) stream_id is_signed delivered_seq sq d r
         | Active \<Rightarrow>
             handle_active x api clk lid laddr (message_type d) stream_id raddr is_signed
               delivered_seq sq d keypair r
         | Expired \<Rightarrow> act_return Pending))"

definition handle_packet ::
  "ext \<Rightarrow> veilid_api \<Rightarrow> clock \<Rightarrow> packet \<Rightarrow> transport_event option poll act" where
  "handle_packet x api clk pkt = (\<lambda>L. case pkt of
     (delivered_seq, sq, stream_id, raddr, d, sg) \<Rightarrow>
       let option_stream = lookup_stream raddr L;
           pk = (case option_stream of Some (r, s) \<Rightarrow> remote_public_key s | None \<Rightarrow> None);
           is_signed = verify_signature x pk d sg;
           L1 = (case option_stream of
                   Some (r, s) \<Rightarrow>
                     (if get_remote_stream_id s = 0
                      then on_stream r (update_remote_stream_id stream_id) L else L)
                 | None \<Rightarrow> L)
       in (case l_local_address L1 of
             None \<Rightarrow> (Return (Ready None), L1, [])
           | Some laddr \<Rightarrow>
               (case option_stream of
                  None \<Rightarrow> handle_no_stream x api clk (l_id L1) laddr (message_type d) stream_id
                            raddr d (l_my_keypair L1) L1
                | Some (r, s) \<Rightarrow> handle_stream x api clk laddr stream_id raddr is_signed
                            delivered_seq sq d (l_my_keypair L1) (l_id L1) r L1)))"

definition handle_app_message ::
  "ext \<Rightarrow> veilid_api \<Rightarrow> clock \<Rightarrow> bytes \<Rightarrow> transport_event option poll act" where
  "handle_app_message x api clk message = (case decode_message x message of
       Panic e \<Rightarrow> act_lift (Panic e)
     | Return (Inl e) \<Rightarrow> act_return Pending
     | Return (Inr pkt) \<Rightarrow> handle_packet x api clk pkt)"

subsection \<open>Attachment, configuration, route changes\<close>

definition is_attached_state :: "AttachmentState \<Rightarrow> bool" where
  "is_attached_state st = (case st of
       Detached \<Rightarrow> False
     | Attaching \<Rightarrow> False
     | AttachedWeak \<Rightarrow> True
     | AttachedGood \<Rightarrow> True
     | AttachedStrong \<Rightarrow> True
     | FullyAttached \<Rightarrow> True
     | OverAttached \<Rightarrow> True
     | Detaching \<Rightarrow> False)"

text \<open>The first block: the node's status, and whether to try to go online.\<close>

definition note_attachment :: "AttachmentState \<Rightarrow> bool \<Rightarrow> Listener \<Rightarrow> Listener \<times> bool" where
  "note_attachment st ready L =
     (let is_attached = is_attached_state st;
          ns1 = (if ns_is_attached (node_status L) \<noteq> is_attached
                 then update_is_attached is_attached (node_status L) else node_status L);
          ns2 = (if ns_public_internet_ready ns1 \<noteq> ready
                 then update_public_internet_ready ready ns1 else ns1)
      in (L\<lparr>node_status := ns2\<rparr>, l_status L = Offline \<and> ready \<and> is_attached))"

text \<open>The second block: the address to listen on, if there is one.\<close>

definition try_online ::
  "ext \<Rightarrow> veilid_api \<Rightarrow> clock \<Rightarrow> VeilidTransportType \<Rightarrow> multiaddr option act" where
  "try_online x api clk tt = (\<lambda>L. case tt of
       UnsafeTransport \<Rightarrow>
         (case ns_my_node_id (node_status L) of
            Some my_node_id \<Rightarrow>
              act_then (act_lift (to_multiaddr x (new_unsafe my_node_id)))
                (\<lambda>m. act_return (Some m)) L
          | None \<Rightarrow> (Return None, L, []))
     | SafeTransport \<Rightarrow>
         (case new_safe api (utc_now clk) of
            (Inr laddr, calls) \<Rightarrow>
              (let L1 = L\<lparr>l_local_address := Some laddr\<rparr>;
                   (L2, calls2) =
                     (if fst (l_local_target L1) = None
                      then (case address_to_target api laddr of
                          (Some t, c) \<Rightarrow>
                            (L1\<lparr>l_local_target := (Some t, TargetActive (utc_now clk))\<rparr>, c)
                        | (None, c) \<Rightarrow> (L1, c))
                      else (L1, []))
               in case to_multiaddr x laddr of
                    Return m \<Rightarrow> (Return (Some m), L2, calls @ calls2)
                  | Panic e \<Rightarrow> (Panic e, L2, calls @ calls2))
          | (Inl e, calls) \<Rightarrow> (Return None, L, calls)))"

definition handle_attachment ::
  "ext \<Rightarrow> veilid_api \<Rightarrow> clock \<Rightarrow> AttachmentState \<Rightarrow> bool \<Rightarrow> transport_event option poll act" where
  "handle_attachment x api clk st ready = (\<lambda>L. case note_attachment st ready L of (L1, online) \<Rightarrow>
     act_then (if online then try_online x api clk (transport_type L1) else act_return None)
       (\<lambda>addr. case addr of
            None \<Rightarrow> act_return Pending
          | Some listen_addr \<Rightarrow>
              act_then (act_modify (\<lambda>L. L\<lparr>l_status := Online\<rparr>)) (\<lambda>_.
              act_then (act_get l_id) (\<lambda>lid.
                act_return (Ready (Some (NewAddress lid listen_addr)))))) L1)"

definition handle_config :: "node_id_group \<Rightarrow> Listener \<Rightarrow> Listener" where
  "handle_config cfg L =
     (case get_my_node_id_from_veilid_state_config cfg of
        None \<Rightarrow> L
      | Some my_node_id \<Rightarrow>
          (if ns_my_node_id (node_status L) \<noteq> Some my_node_id then
             (let L1 = L\<lparr>node_status := update_my_node_id my_node_id (node_status L)\<rparr> in
              case transport_type L of
                SafeTransport \<Rightarrow> L1
              | UnsafeTransport \<Rightarrow> L1\<lparr>l_local_address := Some (new_unsafe my_node_id)\<rparr>)
           else L))"

text \<open>A route change only resolves the node's own address and logs.\<close>

definition handle_route_change ::
  "veilid_api \<Rightarrow> bytes list \<Rightarrow> bytes list \<Rightarrow> transport_event option poll act" where
  "handle_route_change api dead_routes dead_remote_routes = (\<lambda>L. case l_local_address L of
       Some current_address \<Rightarrow> (Return Pending, L, snd (address_to_target api current_address))
     | None \<Rightarrow> (Return Pending, L, []))"

definition convert_update ::
  "ext \<Rightarrow> veilid_api \<Rightarrow> clock \<Rightarrow> VeilidUpdate \<Rightarrow> transport_event option poll act" where
  "convert_update x api clk update = (case update of
       UpdateLog \<Rightarrow> act_return Pending
     | UpdateAppMessage message \<Rightarrow> handle_app_message x api clk message
     | UpdateAppCall \<Rightarrow> act_return Pending
     | UpdateAttachment st ready \<Rightarrow> handle_attachment x api clk st ready
     | UpdateNetwork \<Rightarrow> act_return Pending
     | UpdateConfig cfg \<Rightarrow> act_then (act_modify (handle_config cfg)) (\<lambda>_. act_return Pending)
     | UpdateRouteChange dead dead_remote \<Rightarrow> handle_route_change api dead dead_remote
     | UpdateValueChange \<Rightarrow> act_return Pending
     | UpdateShutdown \<Rightarrow> act_return Pending)"

subsection \<open>The event loop\<close>

text \<open>
  \<open>get_next_event\<close>: take an update and spawn its conversion, then hand out a result that has
  come back (the channel's capacity of 32 only delays the tasks and is not modelled).
\<close>

definition get_next_event :: "Listener \<Rightarrow> transport_event option poll \<times> Listener" where
  "get_next_event L =
     (let next_result = (\<lambda>L. case async_rx L of
            async_result # rest \<Rightarrow> (async_result, L\<lparr>async_rx := rest\<rparr>)
          | [] \<Rightarrow> (Pending, L))
      in case rx L of
           update # rest \<Rightarrow> next_result (L\<lparr>rx := rest, tasks := tasks L @ [update]\<rparr>)
         | [] \<Rightarrow> if rx_closed L then (Ready None, L) else next_result L)"

text \<open>
  One spawned conversion, run to its end: its result is queued, unless it panicked. Which
  task runs next is up to the runtime.
\<close>

definition run_task ::
  "ext \<Rightarrow> veilid_api \<Rightarrow> clock \<Rightarrow> nat \<Rightarrow> Listener \<Rightarrow> Listener \<times> api_call list" where
  "run_task x api clk i L =
     (if i < length (tasks L) then
        (let L1 = L\<lparr>tasks := take i (tasks L) @ drop (Suc i) (tasks L)\<rparr> in
         case convert_update x api clk (tasks L ! i) L1 of
           (Return res, L2, calls) \<Rightarrow> (L2\<lparr>async_rx := async_rx L2 @ [res]\<rparr>, calls)
         | (Panic e, L2, calls) \<Rightarrow> (L2, calls))
      else (L, []))"

end
