(* ===== verification/Delivery.thy ===== *)
theory Delivery
  imports Listener
begin

text \<open>
  Two nodes with a stream each, and a network between them that loses, delays, repeats and
  reorders messages but does not forge them. The steps are the program's own operations on
  the two streams; the abstract specification is a byte pipe in each direction. The
  invariants relate the sender's queue, the network, the receiver's cursor and queue and the
  bytes read, and give that what is read is a beginning of what was written.
\<close>

subsection \<open>The system\<close>

text \<open>
  \<open>p\<close> and \<open>\<not> p\<close> are the two sides. \<open>ep\<close> are the streams, \<open>net p\<close> the wire messages side \<open>p\<close>
  has sent so far. \<open>written\<close>, \<open>chunks\<close> and \<open>consumed\<close> record the history: the writes side
  \<open>p\<close> accepted, the data of its generated messages, the bytes its reads returned.
\<close>

record link =
  ep :: "bool \<Rightarrow> VeilidStream"
  net :: "bool \<Rightarrow> bytes set"
  written :: "bool \<Rightarrow> bytes list"
  chunks :: "bool \<Rightarrow> bytes list"
  consumed :: "bool \<Rightarrow> bytes"
  link_clock :: instant

definition wire_of :: "api_call list \<Rightarrow> bytes set" where
  "wire_of calls = {b. \<exists>sf t. AppMessage sf t b \<in> set calls}"

text \<open>
  What \<open>convert_update\<close> does to an established stream with a packet of its peer: the arms of
  \<open>handle_listen\<close> and \<open>handle_active\<close> for a matching stream id.
\<close>

definition link_receive :: "ext \<Rightarrow> instant \<Rightarrow> packet \<Rightarrow> VeilidStream \<Rightarrow> VeilidStream" where
  "link_receive x now pkt s = (case pkt of (del, k, sid, a, d, sg) \<Rightarrow>
     (case status s of
        Active \<Rightarrow>
          (case message_type d of
             StatusMsg \<Rightarrow> active_status del s
           | DataMsg \<Rightarrow> active_data now (verify_signature x (remote_public_key s) d sg) del k d s
           | _ \<Rightarrow> s)
      | Listen \<Rightarrow>
          (case message_type d of
             DataMsg \<Rightarrow> active_data now (verify_signature x (remote_public_key s) d sg) del k d s
           | _ \<Rightarrow> s)
      | _ \<Rightarrow> s))"

inductive link_step :: "ext \<Rightarrow> link \<Rightarrow> link \<Rightarrow> bool" for x :: ext where
  tick: "link_clock s \<le> t \<Longrightarrow> link_step x s (s\<lparr>link_clock := t\<rparr>)"
| app_write: "poll_write (link_clock s) d (ep s p) = (Ready (Inr n), e, sp) \<Longrightarrow>
    link_step x s (s\<lparr>ep := (ep s)(p := e), written := (written s)(p := written s p @ [d])\<rparr>)"
| generate: "e = generate_messages (ep s p) \<Longrightarrow>
    link_step x s (s\<lparr>ep := (ep s)(p := e),
      chunks := (chunks s)(p := chunks s p @ chunks_of 32623 (outbound_stream (ep s p)))\<rparr>)"
| send: "send_messages x api (link_clock s) (ep s p) = (Return calls, e) \<Longrightarrow>
    link_step x s (s\<lparr>ep := (ep s)(p := e), net := (net s)(p := net s p \<union> wire_of calls)\<rparr>)"
| keepalive: "send_status_if_stale x api (link_clock s) (ep s p) = Return calls \<Longrightarrow>
    link_step x s (s\<lparr>net := (net s)(p := net s p \<union> wire_of calls)\<rparr>)"
| deliver: "w \<in> net s (\<not> p) \<Longrightarrow> decode_message x w = Return (Inr pkt) \<Longrightarrow>
    e = link_receive x (link_clock s) pkt (ep s p) \<Longrightarrow>
    link_step x s (s\<lparr>ep := (ep s)(p := e)\<rparr>)"
| app_read: "poll_read (link_clock s) wk n (ep s p) = (r, e) \<Longrightarrow>
    link_step x s (s\<lparr>ep := (ep s)(p := e),
      consumed := (consumed s)(p := consumed s p @ (case r of Ready (Inr d) \<Rightarrow> d | _ \<Rightarrow> []))\<rparr>)"

text \<open>After the handshake: new streams that know each other's keys.\<close>

definition fresh_stream :: "VeilidStream \<Rightarrow> bool" where
  "fresh_stream s \<longleftrightarrow> vld0_address (local_address s) \<and>
     inbound_stream s = [] \<and> inbound_buffer s = [] \<and> outbound_stream s = [] \<and>
     inbound_message_queue s = [] \<and> outbound_message_queue s = [] \<and>
     get_inbound_received_seq s = 0 \<and> get_outbound_last_seq s = 0"

definition link_init :: "ext \<Rightarrow> link \<Rightarrow> bool" where
  "link_init x s \<longleftrightarrow> (\<forall>p.
     fresh_stream (ep s p) \<and> (status (ep s p) = Active \<or> status (ep s p) = Listen) \<and>
     remote_public_key (ep s p) = Some (public_key x (my_keypair (ep s (\<not> p)))) \<and>
     net s p = {} \<and> written s p = [] \<and> chunks s p = [] \<and> consumed s p = [])"

inductive link_reach :: "ext \<Rightarrow> link \<Rightarrow> bool" for x :: ext where
  init: "link_init x s \<Longrightarrow> link_reach x s"
| step: "link_reach x s \<Longrightarrow> link_step x s t \<Longrightarrow> link_reach x t"

subsection \<open>One direction\<close>

text \<open>Message \<open>k\<close> is chunk \<open>k - 1\<close>, or it is a STATUS message.\<close>

definition carries :: "bytes list \<Rightarrow> u32 \<Rightarrow> bytes \<Rightarrow> bool" where
  "carries cs k d \<longleftrightarrow>
     d = ascii ''STATUS'' \<or> (0 < unat k \<and> unat k \<le> length cs \<and> d = cs ! (unat k - 1))"

text \<open>The sender, for a receiver whose cursor is \<open>c\<close>: undelivered chunks are still queued.\<close>

definition sender_ok :: "VeilidStream \<Rightarrow> nat \<Rightarrow> bytes list \<Rightarrow> bytes list \<Rightarrow> bool" where
  "sender_ok tx c ws cs \<longleftrightarrow>
     framed ws = concat cs @ outbound_stream tx \<and>
     get_outbound_last_seq tx = of_nat (length cs) \<and>
     outbound_queue_wf (outbound_message_queue tx) \<and>
     (\<forall>k m. hm_get k (outbound_message_queue tx) = Some m \<longrightarrow>
        0 < unat k \<and> unat k \<le> length cs \<and> data m = cs ! (unat k - 1)) \<and>
     (\<forall>k. c < unat k \<and> unat k \<le> length cs \<longrightarrow> hm_get k (outbound_message_queue tx) \<noteq> None)"

text \<open>The network: chunks, with acknowledgements no later than the sender's cursor \<open>c\<close>.\<close>

definition net_ok :: "ext \<Rightarrow> bytes set \<Rightarrow> nat \<Rightarrow> bytes list \<Rightarrow> bool" where
  "net_ok x nt c cs \<longleftrightarrow> (\<forall>w \<in> nt. \<exists>del k sid a d sg.
     decode_message x w = Return (Inr (del, k, sid, a, d, sg)) \<and> unat del \<le> c \<and> carries cs k d)"

definition receiver_ok :: "VeilidStream \<Rightarrow> bytes list \<Rightarrow> bool" where
  "receiver_ok rv cs \<longleftrightarrow>
     unat (get_inbound_received_seq rv) \<le> length cs \<and> queue_of_chunks cs (inbound_message_queue rv)"

text \<open>
  What the receiver has made of the chunks up to its cursor: whole writes are readable (or
  were read), the rest waits in the buffer.
\<close>

definition delivered_ok :: "VeilidStream \<Rightarrow> bytes list \<Rightarrow> bytes list \<Rightarrow> bytes \<Rightarrow> bool" where
  "delivered_ok rv ws cs con \<longleftrightarrow> (\<exists>j \<le> length ws.
     concat (take (unat (get_inbound_received_seq rv)) cs) = framed (take j ws) @ inbound_buffer rv \<and>
     con @ inbound_stream rv = concat (take j ws))"

subsection \<open>The sender's operations\<close>

lemma of_nat_length_unat: "length cs < 4294967296 \<Longrightarrow> unat (of_nat (length cs) :: u32) = length cs"
  by simp

lemma sender_ok_write:
  "sender_ok tx c ws cs \<Longrightarrow> outbound_stream tx' = outbound_stream tx @ frame d \<Longrightarrow>
    get_outbound_last_seq tx' = get_outbound_last_seq tx \<Longrightarrow>
    outbound_message_queue tx' = outbound_message_queue tx \<Longrightarrow> sender_ok tx' c (ws @ [d]) cs"
  by (simp add: sender_ok_def)

lemma sender_ok_cong:
  "outbound_stream tx' = outbound_stream tx \<Longrightarrow>
    get_outbound_last_seq tx' = get_outbound_last_seq tx \<Longrightarrow>
    outbound_message_queue tx' = outbound_message_queue tx \<Longrightarrow>
    sender_ok tx' c ws cs = sender_ok tx c ws cs"
  by (simp add: sender_ok_def)

lemma sender_ok_generate:
  assumes ok: "sender_ok tx c ws cs"
    and bound: "length cs + length (chunks_of 32623 (outbound_stream tx)) < 4294967296"
    and c: "c \<le> length cs"
  shows "sender_ok (generate_messages tx) c ws (cs @ chunks_of 32623 (outbound_stream tx))"
proof -
  let ?new = "chunks_of 32623 (outbound_stream tx)"
  have last: "get_outbound_last_seq tx = of_nat (length cs)"
    and q: "hm_get k (outbound_message_queue tx) = Some m \<Longrightarrow>
        0 < unat k \<and> unat k \<le> length cs \<and> data m = cs ! (unat k - 1)"
    and held: "c < unat k \<Longrightarrow> unat k \<le> length cs \<Longrightarrow> hm_get k (outbound_message_queue tx) \<noteq> None"
    for k m using ok by (auto simp: sender_ok_def)
  note spec = generate_messages_spec [OF last bound]
  have "0 < unat k \<and> unat k \<le> length (cs @ ?new) \<and> data m = (cs @ ?new) ! (unat k - 1)"
    if "hm_get k (outbound_message_queue (generate_messages tx)) = Some m" for k m
    using that q [of k m] by (auto simp: spec(2) nth_append split: if_splits)
  moreover have "hm_get k (outbound_message_queue (generate_messages tx)) \<noteq> None"
    if "c < unat k" "unat k \<le> length (cs @ ?new)" for k
    using that held [of k] by (auto simp: spec(2))
  moreover have "framed ws = concat (cs @ ?new)"
    using ok by (simp add: sender_ok_def concat_chunks_of)
  ultimately show ?thesis
    using ok spec(1) generate_messages_wf [of tx] by (simp add: sender_ok_def)
qed

lemma sender_ok_mark:
  assumes ok: "sender_ok tx c ws cs" and sm: "send_messages x api now tx = (r, tx')"
  shows "sender_ok tx' c ws cs"
proof -
  have wf: "outbound_queue_wf (outbound_message_queue tx)" using ok by (simp add: sender_ok_def)
  show ?thesis
    using ok mark_messages_to_send_get [OF wf, of _ now] mark_sent_queue_wf [OF wf]
    by (auto simp: send_messages_frame [OF sm] sender_ok_def get_outbound_last_seq_def
        split: if_splits)
qed

text \<open>An acknowledgement no later than the receiver's cursor removes only delivered chunks.\<close>

lemma sender_ok_ack:
  assumes ok: "sender_ok tx c ws cs" and del: "unat del \<le> c"
    and tx': "outbound_stream tx' = outbound_stream tx"
      "get_outbound_last_seq tx' = get_outbound_last_seq tx"
      "outbound_message_queue tx' = outbound_message_queue tx \<or>
       outbound_message_queue tx' = hm_retain (\<lambda>sq _. sq > del) (outbound_message_queue tx)"
  shows "sender_ok tx' c ws cs"
  using tx'(3)
proof
  assume "outbound_message_queue tx' = outbound_message_queue tx"
  with ok tx' show ?thesis by (simp add: sender_ok_def)
next
  assume q: "outbound_message_queue tx' = hm_retain (\<lambda>sq _. sq > del) (outbound_message_queue tx)"
  have wf: "hm_wf (outbound_message_queue tx)"
    using ok by (simp add: sender_ok_def outbound_queue_wf_def)
  have keep: "hm_get k (outbound_message_queue tx') \<noteq> None"
    if "c < unat k" "unat k \<le> length cs" for k
  proof -
    have "hm_get k (outbound_message_queue tx) \<noteq> None"
      using ok that unfolding sender_ok_def by blast
    then obtain m where "hm_get k (outbound_message_queue tx) = Some m" by auto
    moreover have "k > del" using that del by (simp add: word_less_nat_alt)
    ultimately have "hm_get k (outbound_message_queue tx') = Some m"
      by (simp add: q hm.get_retain_Some [OF wf])
    then show ?thesis by simp
  qed
  show ?thesis
    using ok tx' keep outbound_queue_wf_retain [of "outbound_message_queue tx"]
    by (auto simp: sender_ok_def q hm.get_retain_Some [OF wf])
qed

lemma sender_ok_mono: "sender_ok tx c ws cs \<Longrightarrow> c \<le> c' \<Longrightarrow> sender_ok tx c' ws cs"
  by (auto simp: sender_ok_def)

lemma carries_append: "carries cs k d \<Longrightarrow> carries (cs @ ds) k d"
  by (auto simp: carries_def nth_append)

lemma net_ok_mono:
  assumes "net_ok x nt c cs" and "c \<le> c'"
  shows "net_ok x nt c' (cs @ ds)"
  using assms unfolding net_ok_def by (meson carries_append order_trans)

lemma net_ok_Un: "net_ok x nt c cs \<Longrightarrow> net_ok x nt' c cs \<Longrightarrow> net_ok x (nt \<union> nt') c cs"
  by (auto simp: net_ok_def)

subsection \<open>What goes on the wire\<close>

lemma wire_of_simps [simp]:
  "wire_of [] = {}"
  "wire_of (cs @ cs') = wire_of cs \<union> wire_of cs'"
  by (auto simp: wire_of_def)

lemma wire_of_send_to_remote: "wire_of (spawned (send_message_to_remote api s m)) \<subseteq> {m}"
  by (auto simp: send_message_to_remote_def wire_of_def split: Target.splits if_splits)

lemma send_each_wire:
  assumes "send_each x api s ms = Return calls" and "w \<in> wire_of calls"
  shows "\<exists>m \<in> set ms. encode_message x (get_inbound_received_seq s) (seq m) (my_stream_id s)
           (local_address s) (data m) (my_keypair s) = Return w"
  using assms
proof (induction ms arbitrary: calls)
  case Nil
  then show ?case by simp
next
  case (Cons m ms)
  obtain b cs where b: "encode_message x (get_inbound_received_seq s) (seq m) (my_stream_id s)
      (local_address s) (data m) (my_keypair s) = Return b"
    and cs: "send_each x api s ms = Return cs"
    and calls: "calls = spawned (send_message_to_remote api s b) @ cs"
    using Cons.prems(1) by (auto simp: run_bind_Return_iff split: if_splits)
  show ?case
    using Cons.prems(2) Cons.IH [OF cs] b wire_of_send_to_remote [of api s b] calls by auto
qed

text \<open>Encoded messages decode to what was encoded.\<close>

lemma wire_decodes:
  assumes "wire_laws x" and "vld0_address (local_address s)"
    and "encode_message x r k (my_stream_id s) (local_address s) d (my_keypair s) = Return w"
  shows "\<exists>sg. decode_message x w =
      Return (Inr (r, k, my_stream_id s, public_part (local_address s), d, sg)) \<and>
    verify_signature x (Some (public_key x (my_keypair s))) d sg"
proof -
  obtain sg where "sign x (my_keypair s) d = Some sg"
    using assms(1) by (auto simp: wire_laws_def signing_law_def)
  with assms show ?thesis
    using decode_encode_message [of x "local_address s" "my_keypair s" d sg]
    by (auto simp: wire_laws_def)
qed

lemma net_ok_send:
  assumes laws: "wire_laws x" and addr: "vld0_address (local_address tx)"
    and ok: "sender_ok tx c ws cs"
    and sm: "send_messages x api now tx = (Return calls, tx')"
  shows "net_ok x (wire_of calls) (unat (get_inbound_received_seq tx)) cs"
  unfolding net_ok_def
proof
  fix w assume "w \<in> wire_of calls"
  let ?s = "tx\<lparr>outbound_message_queue :=
    mark_sent now (messages_to_send now tx) (outbound_message_queue tx)\<rparr>"
  have "send_each x api ?s (messages_to_send now tx) = Return calls"
    using sm by (auto simp: send_messages_def Let_def)
  from send_each_wire [OF this \<open>w \<in> wire_of calls\<close>] obtain m where
    m: "m \<in> set (messages_to_send now tx)"
    and enc: "encode_message x (get_inbound_received_seq tx) (seq m) (my_stream_id tx)
      (local_address tx) (data m) (my_keypair tx) = Return w"
    by (auto simp: get_inbound_received_seq_def)
  have "hm_get (seq m) (outbound_message_queue tx) = Some m"
    using m ok messages_to_send_iff [of tx m now] by (simp add: sender_ok_def)
  then have "carries cs (seq m) (data m)"
    using ok by (auto simp: sender_ok_def carries_def)
  then show "\<exists>del k sid a d sg. decode_message x w = Return (Inr (del, k, sid, a, d, sg)) \<and>
     unat del \<le> unat (get_inbound_received_seq tx) \<and> carries cs k d"
    using wire_decodes [OF laws addr enc] by blast
qed

lemma net_ok_status:
  assumes laws: "wire_laws x" and addr: "vld0_address (local_address tx)"
    and st: "send_status_if_stale x api now tx = Return calls"
  shows "net_ok x (wire_of calls) (unat (get_inbound_received_seq tx)) cs"
  unfolding net_ok_def
proof
  fix w assume w: "w \<in> wire_of calls"
  obtain b where enc: "encode_message x (get_inbound_received_seq tx) (get_outbound_last_seq tx)
      (my_stream_id tx) (local_address tx) (ascii ''STATUS'') (my_keypair tx) = Return b"
    and calls: "calls = spawned (send_message_to_remote api tx b)"
    using st w by (auto simp: send_status_if_stale_def Let_def run_bind_Return_iff split: if_splits)
  then have "w = b" using w wire_of_send_to_remote [of api tx b] by auto
  then show "\<exists>del k sid a d sg. decode_message x w = Return (Inr (del, k, sid, a, d, sg)) \<and>
     unat del \<le> unat (get_inbound_received_seq tx) \<and> carries cs k d"
    using wire_decodes [OF laws addr enc] by (auto simp: carries_def)
qed

subsection \<open>The receiver's operations\<close>

text \<open>What one packet may do to a stream: acknowledge, and take in chunks.\<close>

lemma link_receive_sender:
  assumes "link_receive x now (del, k, sid, a, d, sg) s = s'"
  shows "outbound_stream s' = outbound_stream s"
    and "get_outbound_last_seq s' = get_outbound_last_seq s"
    and "outbound_message_queue s' = outbound_message_queue s \<or>
       outbound_message_queue s' = hm_retain (\<lambda>sq _. sq > del) (outbound_message_queue s)"
proof -
  have recv: "outbound_message_queue (recv_message now del k d t) = outbound_message_queue t \<or>
    outbound_message_queue (recv_message now del k d t) =
      hm_retain (\<lambda>sq _. sq > del) (outbound_message_queue t)" for t
    by (auto simp: recv_message_def recv_inbound_buffer_def remove_sent_messages_from_queue_def
        stream_defs Let_def split: prod.splits)
  have "outbound_stream s' = outbound_stream s \<and>
    get_outbound_last_seq s' = get_outbound_last_seq s \<and>
    (outbound_message_queue s' = outbound_message_queue s \<or>
     outbound_message_queue s' = hm_retain (\<lambda>sq _. sq > del) (outbound_message_queue s))"
    using assms recv [of "update_status Active s"]
    by (auto simp: link_receive_def active_status_def active_data_def
        remove_sent_messages_from_queue_def get_outbound_last_seq_def
        get_outbound_delivered_seq_def update_outbound_delivered_seq_def update_status_def
        split: StreamStatus.splits MessageType.splits)
  then show "outbound_stream s' = outbound_stream s"
    and "get_outbound_last_seq s' = get_outbound_last_seq s"
    and "outbound_message_queue s' = outbound_message_queue s \<or>
       outbound_message_queue s' = hm_retain (\<lambda>sq _. sq > del) (outbound_message_queue s)"
    by auto
qed

text \<open>
  What a receiver of the chunks \<open>cs\<close> becomes by taking one in: it stays a receiver, its cursor
  does not go back, and the bytes between the cursors went through \<open>update_inbound_stream\<close>.
\<close>

definition chunk_taken :: "bytes list \<Rightarrow> VeilidStream \<Rightarrow> VeilidStream \<Rightarrow> bool" where
  "chunk_taken cs rv rv' \<longleftrightarrow>
     receiver_ok rv' cs \<and>
     unat (get_inbound_received_seq rv) \<le> unat (get_inbound_received_seq rv') \<and>
     (\<exists>new. concat (take (unat (get_inbound_received_seq rv)) cs) @ new =
         concat (take (unat (get_inbound_received_seq rv')) cs) \<and>
       ((new = [] \<and> inbound_buffer rv' = inbound_buffer rv \<and> inbound_stream rv' = inbound_stream rv) \<or>
        (\<exists>s. inbound_buffer s = inbound_buffer rv @ new \<and> inbound_stream s = inbound_stream rv \<and>
           inbound_buffer rv' = inbound_buffer (update_inbound_stream s) \<and>
           inbound_stream rv' = inbound_stream (update_inbound_stream s))))"

lemma chunk_taken_same: "receiver_ok rv cs \<Longrightarrow> chunk_taken cs rv rv"
  by (simp add: chunk_taken_def)

lemma chunk_taken_early:
  assumes "receiver_ok rv cs" and "0 < unat k" "unat k \<le> length cs" "d = cs ! (unat k - 1)"
  shows "chunk_taken cs rv (rv\<lparr>inbound_message_queue := hm_insert k d (inbound_message_queue rv)\<rparr>)"
  using assms queue_of_chunks_insert [of cs "inbound_message_queue rv" k]
  by (simp add: chunk_taken_def receiver_ok_def get_inbound_received_seq_def)

text \<open>The next chunk, with the early ones that follow it.\<close>

lemma chunk_taken_next:
  assumes ok: "receiver_ok rv cs" and len: "length cs < 4294967295"
    and k: "unat k \<le> length cs" "d = cs ! (unat k - 1)"
    and nxt: "\<not> k \<le> get_inbound_received_seq rv" "\<not> k > get_inbound_received_seq rv + 1" "is_active now rv"
  shows "chunk_taken cs rv (recv_message now del k d rv)"
proof -
  let ?c = "get_inbound_received_seq rv" and ?rv' = "recv_message now del k d rv"
  have q: "queue_of_chunks cs (inbound_message_queue rv)" and "unat ?c \<le> length cs"
    using ok by (simp_all add: receiver_ok_def)
  then have c1: "unat (?c + 1) = unat ?c + 1" using len by (simp add: unat_word_ariths)
  then have kc: "unat k = Suc (unat ?c)" using nxt by (simp add: word_less_nat_alt word_le_nat_alt)
  have d: "d = cs ! unat ?c" "Suc (unat ?c) \<le> length cs" using k kc by simp_all
  have "?c + 1 = of_nat (Suc (unat ?c))" using c1 by (metis Suc_eq_plus1 u32_of_nat_unat)
  with drain_queue_chunks [OF q len d(2), of "inbound_buffer rv @ d"] obtain m q' r where
    m: "Suc (unat ?c) \<le> m" "m \<le> length cs"
    "drain_queue (?c + 1) (inbound_message_queue rv) (inbound_buffer rv @ d) =
       (of_nat m, q', (inbound_buffer rv @ d) @ r)"
    "concat (take (Suc (unat ?c)) cs) @ r = concat (take m cs)" "queue_of_chunks cs q'"
    by auto
  have um: "unat (of_nat m :: u32) = m" using m(2) len by simp
  have new: "concat (take (unat ?c) cs) @ d @ r = concat (take m cs)"
    using m(4) d concat_take_Suc [of "unat ?c" cs] by (metis append.assoc Suc_le_lessD)
  let ?s = "remove_sent_messages_from_queue (update_outbound_delivered_seq del
    (update_inbound_received_seq (of_nat m)
      (rv\<lparr>inbound_message_queue := q', inbound_buffer := (inbound_buffer rv @ d) @ r\<rparr>)))"
  have s: "inbound_buffer ?s = inbound_buffer rv @ (d @ r)" "inbound_stream ?s = inbound_stream rv"
    "get_inbound_received_seq ?s = of_nat m" "inbound_message_queue ?s = q'"
    by (simp_all add: stream_defs remove_sent_messages_from_queue_def)
  have rv': "inbound_buffer ?rv' = inbound_buffer (update_inbound_stream ?s)"
    "inbound_stream ?rv' = inbound_stream (update_inbound_stream ?s)"
    "get_inbound_received_seq ?rv' = of_nat m" "inbound_message_queue ?rv' = q'"
    using s(3,4) unfolding recv_message_next [OF nxt m(3)]
    by (simp_all add: update_inbound_last_timestamp_to_now_def get_inbound_received_seq_def)
  show ?thesis
    unfolding chunk_taken_def rv' receiver_ok_def um using m(1,2,5) new s(1,2) by auto
qed

lemma recv_message_chunk:
  assumes ok: "receiver_ok rv cs" and len: "length cs < 4294967295"
    and k: "0 < unat k" "unat k \<le> length cs" "d = cs ! (unat k - 1)"
  shows "chunk_taken cs rv (recv_message now del k d rv)"
proof -
  consider "recv_message now del k d rv = rv"
    | "recv_message now del k d rv = rv\<lparr>inbound_message_queue := hm_insert k d (inbound_message_queue rv)\<rparr>"
    | "\<not> k \<le> get_inbound_received_seq rv" "\<not> k > get_inbound_received_seq rv + 1" "is_active now rv"
    by (metis recv_message_duplicate recv_message_early recv_message_next_inactive)
  then show ?thesis
    using chunk_taken_same [OF ok] chunk_taken_early [OF ok k] chunk_taken_next [OF ok len k(2,3)]
    by cases simp_all
qed

end
