(* ===== verification/Sample_Node.thy ===== *)
theory Sample_Node
  imports Veilid_Types
begin

text \<open>
  A concrete instance of the library functions the program calls: small total codes that
  satisfy every law of \<open>ext\<close>. The laws are thus consistent, and the witnesses of the
  properties run the program's operations over this instance.
\<close>

subsection \<open>Codes\<close>

definition sample_key_encode :: "bytes \<Rightarrow> string" where
  "sample_key_encode k = concat (map (\<lambda>b. if b = 58 then ''a'' else [CHR ''b'', char_of (unat b)]) k)"

fun sample_key_decode :: "string \<Rightarrow> bytes option" where
  "sample_key_decode [] = Some []"
| "sample_key_decode (c # s) =
     (if c = CHR ''a'' then map_option (Cons 58) (sample_key_decode s)
      else if c = CHR ''b'' then
        (case s of
           [] \<Rightarrow> None
         | d # t \<Rightarrow> map_option (Cons (of_nat (of_char d))) (sample_key_decode t))
      else None)"

definition put_nat :: "nat \<Rightarrow> bytes" where
  "put_nat n = replicate n 1 @ [0]"

fun get_nat :: "bytes \<Rightarrow> (nat \<times> bytes) option" where
  "get_nat [] = None"
| "get_nat (b # bs) =
     (if b = 0 then Some (0, bs) else map_option (\<lambda>(n, r). (Suc n, r)) (get_nat bs))"

definition put_bytes :: "bytes \<Rightarrow> bytes" where
  "put_bytes d = concat (map (\<lambda>b. [1, b]) d) @ [0]"

fun get_bytes :: "bytes \<Rightarrow> (bytes \<times> bytes) option" where
  "get_bytes [] = None"
| "get_bytes (t # bs) =
     (if t = 0 then Some ([], bs)
      else (case bs of
              [] \<Rightarrow> None
            | b # r \<Rightarrow> map_option (\<lambda>(d, r'). (b # d, r')) (get_bytes r)))"

definition put_text :: "string \<Rightarrow> bytes" where
  "put_text s = put_bytes (map (\<lambda>c. of_nat (of_char c)) s)"

definition text_of :: "bytes \<Rightarrow> string" where
  "text_of d = map (\<lambda>b. char_of (unat b)) d"

definition sample_encode :: "Payload \<Rightarrow> bytes" where
  "sample_encode p = put_nat (unat (pl_received_seq p)) @ put_nat (unat (pl_msg_seq p)) @
     put_nat (unat (pl_stream_id p)) @ put_bytes (pl_signature p) @ put_text (pl_address p) @
     put_bytes (pl_data p)"

definition sample_decode :: "bytes \<Rightarrow> string + Payload" where
  "sample_decode b0 = (case get_nat b0 of None \<Rightarrow> Inl ''DecodeError'' | Some (r, b1) \<Rightarrow>
     (case get_nat b1 of None \<Rightarrow> Inl ''DecodeError'' | Some (k, b2) \<Rightarrow>
     (case get_nat b2 of None \<Rightarrow> Inl ''DecodeError'' | Some (sid, b3) \<Rightarrow>
     (case get_bytes b3 of None \<Rightarrow> Inl ''DecodeError'' | Some (sg, b4) \<Rightarrow>
     (case get_bytes b4 of None \<Rightarrow> Inl ''DecodeError'' | Some (a, b5) \<Rightarrow>
     (case get_bytes b5 of None \<Rightarrow> Inl ''DecodeError'' | Some (d, b6) \<Rightarrow>
       Inr \<lparr>pl_received_seq = of_nat r, pl_msg_seq = of_nat k, pl_stream_id = of_nat sid,
         pl_signature = sg, pl_address = text_of a, pl_data = d\<rparr>))))))"

subsection \<open>They are inverse\<close>

lemma of_char_less: "(of_char c :: nat) < 256"
  by (metis nat_of_char_less_256)

lemma unat_byte: "unat (b :: byte) < 256"
proof -
  have "unat b < 2 ^ LENGTH(8)" by (rule unsigned_less)
  then show ?thesis by simp
qed

lemma text_of_bytes: "text_of (map (\<lambda>c. of_nat (of_char c)) s) = s"
  by (induction s) (simp_all add: text_of_def of_char_less unat_of_nat)

lemma get_put_nat: "get_nat (put_nat n @ r) = Some (n, r)"
  by (induction n) (simp_all add: put_nat_def)

lemma get_put_bytes: "get_bytes (put_bytes d @ r) = Some (d, r)"
  by (induction d) (simp_all add: put_bytes_def)

lemma sample_key_code: "sample_key_decode (sample_key_encode k) = Some k"
proof (induction k)
  case (Cons b k)
  have "(of_nat (unat b mod 256) :: byte) = b"
    using unat_byte [of b] by simp
  with Cons show ?case by (simp add: sample_key_encode_def)
qed (simp add: sample_key_encode_def)

lemma sample_key_text: "CHR '':'' \<notin> set (sample_key_encode k)"
proof (induction k)
  case (Cons b k)
  have "char_of (unat b) \<noteq> CHR '':''" if "b \<noteq> 58"
  proof
    assume "char_of (unat b) = CHR '':''"
    then have "of_char (char_of (unat b)) = (of_char (CHR '':'') :: nat)" by simp
    then have "unat b = unat (58 :: byte)" using unat_byte [of b] by simp
    then show False using that by (metis word_unat_eq_iff)
  qed
  with Cons show ?case by (auto simp: sample_key_encode_def)
qed (simp add: sample_key_encode_def)

lemma sample_payload: "sample_decode (sample_encode p) = Inr p"
  by (simp add: sample_decode_def sample_encode_def put_text_def get_put_nat get_put_bytes
      text_of_bytes get_put_bytes [of _ "[]", simplified])

subsection \<open>The instance\<close>

text \<open>A signature is the signer's key and the message; a public key is the key itself.\<close>

fun sample_sign :: "Keypair \<Rightarrow> bytes \<Rightarrow> bytes option" where
  "sample_sign (Keypair k) d = Some (k @ d)"

fun sample_public_key :: "Keypair \<Rightarrow> PublicKey" where
  "sample_public_key (Keypair k) = PublicKey k"

fun sample_verify :: "PublicKey \<Rightarrow> bytes \<Rightarrow> bytes \<Rightarrow> bool" where
  "sample_verify (PublicKey k) d s \<longleftrightarrow> s = k @ d"

definition sample_parse :: "string \<Rightarrow> multiaddr option" where
  "sample_parse s = (if take 6 s = ''/unix/'' then Some (map (\<lambda>c. of_nat (of_char c)) s) else None)"

definition sample_ext :: ext where
  "sample_ext = \<lparr>
     key_encode = sample_key_encode,
     key_decode = sample_key_decode,
     typed_to_string = (\<lambda>kind k. kind @ '':'' @ sample_key_encode k),
     multiaddr_parse = sample_parse,
     multiaddr_to_string = text_of,
     payload_encode = sample_encode,
     payload_decode = sample_decode,
     sign = sample_sign,
     public_key = sample_public_key,
     verify = sample_verify,
     encode_protobuf = (\<lambda>pk. case pk of PublicKey k \<Rightarrow> k),
     try_decode_protobuf = (\<lambda>d. Some (PublicKey d))\<rparr>"

lemma sample_ext_simps [simp]:
  "key_encode sample_ext = sample_key_encode"
  "key_decode sample_ext = sample_key_decode"
  "typed_to_string sample_ext kind k = kind @ '':'' @ sample_key_encode k"
  "multiaddr_parse sample_ext = sample_parse"
  "multiaddr_to_string sample_ext = text_of"
  "payload_encode sample_ext = sample_encode"
  "payload_decode sample_ext = sample_decode"
  "sign sample_ext = sample_sign"
  "public_key sample_ext = sample_public_key"
  "verify sample_ext = sample_verify"
  "encode_protobuf sample_ext (PublicKey pk) = pk"
  "try_decode_protobuf sample_ext d = Some (PublicKey d)"
  by (simp_all add: sample_ext_def)

lemma sample_multiaddr_law: "multiaddr_law sample_ext"
  by (simp add: multiaddr_law_def sample_ext_def sample_parse_def text_of_bytes
      del: list.map) 

lemma sample_payload_law: "payload_law sample_ext"
  by (simp add: payload_law_def sample_ext_def sample_payload)

lemma sample_key_text_law: "key_text_law sample_ext"
  by (simp add: key_text_law_def sample_ext_def sample_key_code sample_key_text)

lemma sample_signature_law: "signature_law sample_ext"
  unfolding signature_law_def
proof (intro allI impI)
  fix kp d s assume "sign sample_ext kp d = Some s"
  then show "verify sample_ext (public_key sample_ext kp) d s"
    by (cases kp) (simp add: sample_ext_def)
qed

lemma sample_signing_law: "signing_law sample_ext"
  unfolding signing_law_def
proof (intro allI)
  fix kp d show "sign sample_ext kp d \<noteq> None" by (cases kp) (simp add: sample_ext_def)
qed

lemma sample_public_key_law: "public_key_law sample_ext"
  unfolding public_key_law_def
proof
  fix pk show "try_decode_protobuf sample_ext (encode_protobuf sample_ext pk) = Some pk"
    by (cases pk) (simp add: sample_ext_def)
qed

lemma sample_wire_laws: "wire_laws sample_ext"
  by (simp add: wire_laws_def sample_payload_law sample_key_text_law sample_multiaddr_law
      sample_signature_law sample_signing_law)

text \<open>A node that is attached and answers every request.\<close>

definition sample_api :: veilid_api where
  "sample_api = \<lparr>
     routing_context = True,
     with_safety = True,
     open_dht_record = (\<lambda>k w. True),
     get_dht_value = (\<lambda>k. Some (Some [7])),
     import_remote_private_route = Some,
     new_custom_private_route = Some ([1], [2]),
     dht_schema = True,
     create_dht_record = Some (CryptoTyped VLD0 (RecordKey [3]), [4], Some [5]),
     set_dht_value = (\<lambda>k v w. True)\<rparr>"

end
