(* ===== verification/Sample_Run.thy ===== *)
theory Sample_Run
  imports Delivery Sample_Node
begin

text \<open>
  A concrete run of the two-sided system of \<open>Delivery\<close> over \<open>Sample_Node\<close>: one side writes
  two bytes, cuts them into a message and sends it, the other side receives it and reads
  the bytes. Every state is computed by the program's operations.
\<close>

definition sample_address :: "byte \<Rightarrow> Address" where
  "sample_address n = Unsafe (CryptoTyped VLD0 (NodeId [n]))"

definition sample_target :: "byte \<Rightarrow> Target" where
  "sample_target n = NodeIdTarget (CryptoTyped VLD0 (NodeId [n]))"

definition sample_clock :: clock where
  "sample_clock = \<lparr>instant_now = 0, utc_now = 0, unix_secs = 1\<rparr>"

lemma sample_after_epoch [simp]: "after_epoch sample_clock"
  by (simp add: after_epoch_def sample_clock_def)

definition sample_stream :: "byte \<Rightarrow> byte \<Rightarrow> VeilidStream" where
  "sample_stream me peer = update_remote_public_key (PublicKey [peer]) (update_status Active
     (stream_init sample_clock 0 (sample_address me) (sample_address peer) (sample_target peer) 1
       (Keypair [me])))"

definition sample_data :: bytes where
  "sample_data = [104, 105]"

definition sample_written :: VeilidStream where
  "sample_written = fst (snd (poll_write 0 sample_data (sample_stream 1 2)))"

definition sample_generated :: VeilidStream where
  "sample_generated = generate_messages sample_written"

definition sample_sent :: VeilidStream where
  "sample_sent = snd (send_messages sample_ext sample_api 0 sample_generated)"

definition sample_packet :: packet where
  "sample_packet = (0, 1, 1, sample_address 1, frame sample_data, 1 # frame sample_data)"

definition sample_wire :: bytes where
  "sample_wire = payload_encode sample_ext \<lparr>pl_received_seq = 0, pl_msg_seq = 1, pl_stream_id = 1,
     pl_signature = 1 # frame sample_data, pl_address = address_text sample_ext (sample_address 1),
     pl_data = frame sample_data\<rparr>"

definition sample_received :: VeilidStream where
  "sample_received = link_receive sample_ext 0 sample_packet (sample_stream 2 1)"

definition sample_read :: VeilidStream where
  "sample_read = snd (poll_read 0 7 16 sample_received)"

text \<open>The link before and after.\<close>

definition link_start :: link where
  "link_start = \<lparr>ep = (\<lambda>p. if p then sample_stream 1 2 else sample_stream 2 1),
     net = (\<lambda>p. {}), written = (\<lambda>p. []), chunks = (\<lambda>p. []), consumed = (\<lambda>p. []),
     link_clock = 0\<rparr>"

definition link_sent :: link where
  "link_sent = \<lparr>ep = (\<lambda>p. if p then sample_sent else sample_stream 2 1),
     net = (\<lambda>p. if p then {sample_wire} else {}),
     written = (\<lambda>p. if p then [sample_data] else []),
     chunks = (\<lambda>p. if p then [frame sample_data] else []), consumed = (\<lambda>p. []),
     link_clock = 0\<rparr>"

definition link_end :: link where
  "link_end = \<lparr>ep = (\<lambda>p. if p then sample_sent else sample_read),
     net = (\<lambda>p. if p then {sample_wire} else {}),
     written = (\<lambda>p. if p then [sample_data] else []),
     chunks = (\<lambda>p. if p then [frame sample_data] else []),
     consumed = (\<lambda>p. if p then [] else sample_data), link_clock = 0\<rparr>"

subsection \<open>Evaluation\<close>

lemma sample_stream_fields [simp]:
  "status (sample_stream me peer) = Active"
  "local_address (sample_stream me peer) = sample_address me"
  "remote_target (sample_stream me peer) = sample_target peer"
  "my_stream_id (sample_stream me peer) = 1"
  "my_keypair (sample_stream me peer) = Keypair [me]"
  "remote_public_key (sample_stream me peer) = Some (PublicKey [peer])"
  "inbound_stream (sample_stream me peer) = []"
  "inbound_buffer (sample_stream me peer) = []"
  "outbound_stream (sample_stream me peer) = []"
  "inbound_message_queue (sample_stream me peer) = []"
  "outbound_message_queue (sample_stream me peer) = []"
  "inbound_received_seq (sample_stream me peer) = StreamSeq_new 0"
  "outbound_last_seq (sample_stream me peer) = StreamSeq_new 0"
  "inbound_last_timestamp (sample_stream me peer) = 0"
  "outbound_last_timestamp (sample_stream me peer) = 0"
  "waker (sample_stream me peer) = None"
  by (simp_all add: sample_stream_def stream_defs sample_clock_def)

lemma sample_heard [simp]:
  "inbound_last_timestamp s = 0 \<Longrightarrow> heard_recently 0 s"
  by (simp add: heard_recently_def secs_def)

lemma sample_frame: "frame sample_data = [2, 0, 0, 0, 104, 105]"
  by (simp add: frame_def sample_data_def u32_to_le_bytes_def drop_bit_eq_div)

lemma sample_written_eval:
  "sample_written = (sample_stream 1 2)\<lparr>outbound_stream := frame sample_data\<rparr>"
  by (simp add: sample_written_def poll_write_def insert_to_outbound_stream_def frame_def
      is_expired_def Let_def)

lemma sample_outbound: "outbound_stream sample_written = frame sample_data"
  by (simp add: sample_written_eval)

lemma sample_frame_short: "frame sample_data \<noteq> []" "length (frame sample_data) \<le> 32623"
  by (simp_all add: sample_data_def)

lemma sample_chunks_eval:
  "chunks_of 32623 (outbound_stream sample_written) = [frame sample_data]"
  using sample_frame_short
  by (subst chunks_of.simps) (simp add: sample_outbound chunks_of.simps)

lemma sample_generated_eval:
  "sample_generated = sample_written\<lparr>outbound_stream := [], outbound_last_seq := \<lparr>seq_value = 1\<rparr>,
     outbound_message_queue :=
       [(1, \<lparr>seq = 1, data = frame sample_data, last_try_send = None\<rparr>)]\<rparr>"
proof -
  have eval: "outbound_last_seq sample_written = \<lparr>seq_value = 0\<rparr>"
    "outbound_message_queue sample_written = []"
    by (simp_all add: sample_written_eval StreamSeq_new_def)
  have "generate_loop (frame sample_data) \<lparr>seq_value = 0\<rparr> [] =
      (\<lparr>seq_value = 1\<rparr>, [(1, \<lparr>seq = 1, data = frame sample_data, last_try_send = None\<rparr>)])"
    using sample_frame_short
    by (simp add: generate_loop_step StreamSeq_increment_def StreamSeq_load_def hm_insert_def)
  then show ?thesis
    by (simp add: sample_generated_def generate_messages_def sample_outbound eval)
qed

lemma sample_encode_message:
  "encode_message sample_ext r k sid a d (Keypair key) = Return (sample_encode
     \<lparr>pl_received_seq = r, pl_msg_seq = k, pl_stream_id = sid, pl_signature = key @ d,
      pl_address = address_text sample_ext a, pl_data = d\<rparr>)"
  using to_multiaddr_Return [OF sample_multiaddr_law, of a] by (auto simp: encode_message_def)

lemma sample_messages_to_send:
  "messages_to_send 0 sample_generated = [\<lparr>seq = 1, data = frame sample_data, last_try_send = None\<rparr>]"
  by (simp add: messages_to_send_def sample_generated_eval hm_values_def due_iff)

lemma sample_send_eval:
  "send_messages sample_ext sample_api 0 sample_generated =
     (Return [AppMessage SafetyUnsafe (sample_target 2) sample_wire], sample_sent)"
proof -
  have "send_each sample_ext sample_api (sample_generated\<lparr>outbound_message_queue := q\<rparr>)
      [\<lparr>seq = 1, data = frame sample_data, last_try_send = None\<rparr>] =
      Return [AppMessage SafetyUnsafe (sample_target 2) sample_wire]" for q
    by (simp add: sample_encode_message sample_wire_def sample_generated_eval sample_written_eval
        get_inbound_received_seq_def send_message_to_remote_def sample_target_def sample_api_def
        sample_data_def)
  then show ?thesis
    by (simp add: sample_sent_def send_messages_def Let_def sample_messages_to_send)
qed

lemma sample_decode_eval:
  "decode_message sample_ext sample_wire = Return (Inr sample_packet)"
  using try_from_string_address_text [OF sample_key_text_law, of "sample_address 1"]
  by (simp add: decode_message_def sample_wire_def sample_payload sample_packet_def sample_address_def)

lemma sample_received_eval:
  "get_inbound_received_seq sample_received = 1"
  "inbound_stream sample_received = sample_data" "inbound_buffer sample_received = []"
  "inbound_message_queue sample_received = []"
  "inbound_last_timestamp sample_received = 0" "status sample_received = Active"
proof -
  let ?s = "sample_stream 2 1"
  have mt: "message_type (frame sample_data) = DataMsg"
    by (simp add: message_type_bytes sample_frame ascii_def of_char_def)
  have rcv: "sample_received = recv_message 0 0 1 (frame sample_data) (update_status Active ?s)"
    by (simp add: sample_received_def sample_packet_def link_receive_def mt active_data_def
        verify_signature_def)
  have dq: "drain_queue (get_inbound_received_seq (update_status Active ?s) + 1)
      (inbound_message_queue (update_status Active ?s))
      (inbound_buffer (update_status Active ?s) @ frame sample_data) = (1, [], framed [sample_data])"
    by (simp add: stream_defs drain_queue.simps hm_get_def)
  have act: "is_active 0 (update_status Active ?s)"
    by (simp add: is_active_def stream_defs)
  let ?t = "remove_sent_messages_from_queue (update_outbound_delivered_seq 0
     (update_inbound_received_seq 1 ((update_status Active ?s)\<lparr>inbound_message_queue := [],
        inbound_buffer := framed [sample_data]\<rparr>)))"
  have rm: "sample_received = update_inbound_last_timestamp_to_now 0 (update_inbound_stream ?t)"
    unfolding rcv by (rule recv_message_next [OF _ _ act dq]) (simp_all add: stream_defs)
  have t: "inbound_buffer ?t = framed [sample_data]" "inbound_stream ?t = []"
    "get_inbound_received_seq ?t = 1" "inbound_message_queue ?t = []" "status ?t = Active"
    by (simp_all add: remove_sent_messages_from_queue_def stream_defs)
  have ok: "frames_ok [sample_data]" by (simp add: sample_data_def)
  show "get_inbound_received_seq sample_received = 1"
    "inbound_stream sample_received = sample_data" "inbound_buffer sample_received = []"
    "inbound_message_queue sample_received = []"
    "inbound_last_timestamp sample_received = 0" "status sample_received = Active"
    unfolding rm using update_inbound_stream_framed [OF t(1) ok] t(2-5)
    by (simp_all add: update_inbound_last_timestamp_to_now_def get_inbound_received_seq_def)
qed

lemma sample_read_eval:
  "poll_read 0 7 16 sample_received = (Ready (Inr sample_data), sample_read)"
  "inbound_stream sample_read = []" "inbound_buffer sample_read = []"
  "get_inbound_received_seq sample_read = 1"
  using sample_received_eval
  by (simp_all add: sample_read_def poll_read_def is_expired_def read_inbound_stream_def Let_def
      sample_data_def get_inbound_received_seq_def)

subsection \<open>The run\<close>

lemma link_start_init: "link_init sample_ext link_start"
  by (simp add: link_init_def link_start_def fresh_stream_def sample_address_def stream_defs)

lemma fun_upd_if: "(\<lambda>q. if q then a else b)(True := c) = (\<lambda>q. if q then c else b)"
  "(\<lambda>q. if q then a else b)(False := c) = (\<lambda>q. if q then a else c)"
  "(\<lambda>q. a)(True := c) = (\<lambda>q. if q then c else a)"
  "(\<lambda>q. a)(False := c) = (\<lambda>q. if q then a else c)"
  by auto

lemma link_sent_reach: "link_reach sample_ext link_sent"
proof -
  let ?w = "link_start\<lparr>ep := (ep link_start)(True := sample_written),
    written := (written link_start)(True := written link_start True @ [sample_data])\<rparr>"
  have w: "link_reach sample_ext ?w"
  proof (rule link_reach.step [OF link_reach.init [OF link_start_init] link_step.app_write])
    show "poll_write (link_clock link_start) sample_data (ep link_start True) =
      (Ready (Inr 2), sample_written, True)"
      by (simp add: link_start_def sample_written_eval poll_write_def insert_to_outbound_stream_def
          is_expired_def is_active_def frame_def Let_def sample_data_def)
  qed
  let ?g = "?w\<lparr>ep := (ep ?w)(True := sample_generated),
    chunks := (chunks ?w)(True := chunks ?w True @ chunks_of 32623 (outbound_stream (ep ?w True)))\<rparr>"
  have g: "link_reach sample_ext ?g"
    by (rule link_reach.step [OF w link_step.generate]) (simp add: sample_generated_def)
  have "link_reach sample_ext (?g\<lparr>ep := (ep ?g)(True := sample_sent), net := (net ?g)(True :=
      net ?g True \<union> wire_of [AppMessage SafetyUnsafe (sample_target 2) sample_wire])\<rparr>)"
    by (rule link_reach.step [OF g link_step.send [where api = sample_api]])
      (simp add: sample_send_eval link_start_def)
  moreover have "wire_of [AppMessage SafetyUnsafe (sample_target 2) sample_wire] = {sample_wire}"
    by (auto simp: wire_of_def)
  ultimately show ?thesis
    by (simp add: link_start_def link_sent_def fun_upd_if sample_chunks_eval)
qed

lemma link_end_reach: "link_reach sample_ext link_end"
proof -
  let ?d = "link_sent\<lparr>ep := (ep link_sent)(False := sample_received)\<rparr>"
  have d: "link_reach sample_ext ?d"
  proof (rule link_reach.step [OF link_sent_reach link_step.deliver])
    show "sample_wire \<in> net link_sent (\<not> False)" by (simp add: link_sent_def)
    show "decode_message sample_ext sample_wire = Return (Inr sample_packet)"
      by (rule sample_decode_eval)
    show "sample_received = link_receive sample_ext (link_clock link_sent) sample_packet
        (ep link_sent False)"
      by (simp add: sample_received_def link_sent_def)
  qed
  have "link_reach sample_ext (?d\<lparr>ep := (ep ?d)(False := sample_read),
    consumed := (consumed ?d)(False := consumed ?d False @
      (case Ready (Inr sample_data) :: (string + bytes) poll of Ready (Inr d) \<Rightarrow> d | _ \<Rightarrow> []))\<rparr>)"
    by (rule link_reach.step [OF d link_step.app_read [where wk = 7 and n = 16]])
      (simp add: sample_read_eval link_sent_def)
  then show ?thesis
    by (simp add: link_sent_def link_end_def fun_upd_if)
qed

lemma link_end_fields [simp]:
  "written link_end True = [sample_data]" "chunks link_end True = [frame sample_data]"
  "consumed link_end False = sample_data" "ep link_end False = sample_read"
  "ep link_end True = sample_sent" "chunks link_end False = []"
  by (simp_all add: link_end_def)

end
