(* ===== verification/Delivery_Safety.thy ===== *)
theory Delivery_Safety
  imports Sample_Run
begin

text \<open>
  The invariant of the two-sided system of \<open>Delivery\<close>, its preservation by every step, and
  the safety of delivery: what a side has read and can read is a beginning of what the other
  side wrote, cut at a write boundary, and no undelivered chunk is ever dropped by its sender.
\<close>

subsection \<open>The receiver\<close>

text \<open>No message boundary up to which a receiver may have come cuts a header.\<close>

definition aligned :: "bytes list \<Rightarrow> bool" where
  "aligned cs \<longleftrightarrow> (\<forall>c \<le> length cs. \<not> ends_in_header (concat (take c cs)))"

lemma aligned_append: "aligned (cs @ ds) \<Longrightarrow> aligned cs"
  unfolding aligned_def
proof (intro allI impI)
  fix c assume "\<forall>c \<le> length (cs @ ds). \<not> ends_in_header (concat (take c (cs @ ds)))" "c \<le> length cs"
  then have "\<not> ends_in_header (concat (take c (cs @ ds)))"
    by (metis length_append trans_le_add1)
  with \<open>c \<le> length cs\<close> show "\<not> ends_in_header (concat (take c cs))" by simp
qed

lemma delivered_ok_cong:
  "get_inbound_received_seq rv' = get_inbound_received_seq rv \<Longrightarrow>
    inbound_buffer rv' = inbound_buffer rv \<Longrightarrow>
    con' @ inbound_stream rv' = con @ inbound_stream rv \<Longrightarrow>
    delivered_ok rv ws cs con \<Longrightarrow> delivered_ok rv' ws cs con'"
  by (simp add: delivered_ok_def)

lemma delivered_ok_feed:
  assumes ok: "delivered_ok rv ws cs con" and ws: "frames_ok ws" and al: "aligned cs"
    and bytes: "framed ws = concat cs @ rest"
    and c': "unat (get_inbound_received_seq rv') \<le> length cs"
    and new: "concat (take (unat (get_inbound_received_seq rv)) cs) @ new =
      concat (take (unat (get_inbound_received_seq rv')) cs)"
    and s: "inbound_buffer s = inbound_buffer rv @ new" "inbound_stream s = inbound_stream rv"
    and rv': "inbound_buffer rv' = inbound_buffer (update_inbound_stream s)"
      "inbound_stream rv' = inbound_stream (update_inbound_stream s)"
  shows "delivered_ok rv' ws cs con"
proof -
  let ?fed = "concat (take (unat (get_inbound_received_seq rv)) cs)"
  obtain j where j: "j \<le> length ws" "?fed = framed (take j ws) @ inbound_buffer rv"
    "con @ inbound_stream rv = concat (take j ws)"
    using ok by (auto simp: delivered_ok_def)
  have "concat cs = concat (take (unat (get_inbound_received_seq rv')) cs) @
      concat (drop (unat (get_inbound_received_seq rv')) cs)"
    by (metis append_take_drop_id concat_append)
  then have pre: "prefix (?fed @ new) (framed ws)"
    using bytes by (simp add: new prefix_def)
  obtain sl r where cut: "deframe (inbound_buffer rv @ new) = (sl, r)"
    by (cases "deframe (inbound_buffer rv @ new)")
  from fr.feed [OF ws j(1) j(2)[unfolded framed_def] pre[unfolded framed_def] cut] obtain j' where
    j': "j' \<le> length ws" "?fed @ new = framed (take j' ws) @ r"
      "concat (take j ws) @ concat sl = concat (take j' ws)"
    unfolding framed_def by blast
  have "\<not> ends_in_header (?fed @ new)"
    using al c' unfolding aligned_def new by blast
  then have "\<not> ends_in_header (inbound_buffer rv @ new)"
    using ends_in_header_framed [OF frames_ok_take [OF ws], of j "inbound_buffer rv @ new"]
    by (simp add: j(2))
  then have "inbound_stream rv' = inbound_stream rv @ concat sl" and "inbound_buffer rv' = r"
    using cut unfolding rv' update_inbound_stream_stream update_inbound_stream_buffer s
    by (simp_all add: ends_in_header_def)
  then show ?thesis
    using j' j(3) unfolding delivered_ok_def new [symmetric]
    by (metis append.assoc)
qed

text \<open>What delivering a message of the sender does, whatever it carries.\<close>

lemma delivered_ok_recv:
  assumes "receiver_ok rv cs" "length cs < 4294967295"
    and "0 < unat k" "unat k \<le> length cs" "d = cs ! (unat k - 1)"
    and "delivered_ok rv ws cs con" "frames_ok ws" "aligned cs" "framed ws = concat cs @ rest"
  shows "delivered_ok (recv_message now del k d rv) ws cs con"
proof -
  let ?rv' = "recv_message now del k d rv"
  note chunk = recv_message_chunk [OF assms(1-5), of now del, unfolded chunk_taken_def]
  have c': "unat (get_inbound_received_seq ?rv') \<le> length cs"
    using chunk by (simp add: receiver_ok_def)
  from chunk obtain new where new:
    "concat (take (unat (get_inbound_received_seq rv)) cs) @ new =
      concat (take (unat (get_inbound_received_seq ?rv')) cs)"
    "(new = [] \<and> inbound_buffer ?rv' = inbound_buffer rv \<and> inbound_stream ?rv' = inbound_stream rv) \<or>
     (\<exists>s. inbound_buffer s = inbound_buffer rv @ new \<and> inbound_stream s = inbound_stream rv \<and>
        inbound_buffer ?rv' = inbound_buffer (update_inbound_stream s) \<and>
        inbound_stream ?rv' = inbound_stream (update_inbound_stream s))"
    by blast
  from new(2) show ?thesis
  proof
    assume "new = [] \<and> inbound_buffer ?rv' = inbound_buffer rv \<and> inbound_stream ?rv' = inbound_stream rv"
    with new(1) assms(6) show ?thesis by (simp add: delivered_ok_def)
  next
    assume "\<exists>s. inbound_buffer s = inbound_buffer rv @ new \<and> inbound_stream s = inbound_stream rv \<and>
        inbound_buffer ?rv' = inbound_buffer (update_inbound_stream s) \<and>
        inbound_stream ?rv' = inbound_stream (update_inbound_stream s)"
    then show ?thesis
      using delivered_ok_feed [OF assms(6-9) c' new(1)] by blast
  qed
qed

lemma link_receive_cases:
  "link_receive x now (del, k, sid, a, d, sg) s = s \<or>
   link_receive x now (del, k, sid, a, d, sg) s = active_status del s \<or>
   message_type d = DataMsg \<and>
     link_receive x now (del, k, sid, a, d, sg) s = recv_message now del k d (update_status Active s)"
  by (auto simp: link_receive_def active_data_def split: StreamStatus.splits MessageType.splits)

lemma status_text_type: "message_type (ascii ''STATUS'') = StatusMsg"
  by (simp add: message_type_bytes) (simp add: ascii_def)

lemma active_status_frame [simp]:
  "get_inbound_received_seq (active_status del s) = get_inbound_received_seq s"
  "inbound_message_queue (active_status del s) = inbound_message_queue s"
  "inbound_buffer (active_status del s) = inbound_buffer s"
  "inbound_stream (active_status del s) = inbound_stream s"
  "local_address (active_status del s) = local_address s"
  "my_keypair (active_status del s) = my_keypair s"
  "remote_public_key (active_status del s) = remote_public_key s"
  "status (active_status del s) = status s"
  by (simp_all add: active_status_def remove_sent_messages_from_queue_def stream_defs Let_def)

lemma link_receive_keys:
  "local_address (link_receive x now pkt s) = local_address s"
  "my_keypair (link_receive x now pkt s) = my_keypair s"
  "remote_public_key (link_receive x now pkt s) = remote_public_key s"
  using link_receive_cases [of x now "fst pkt" "fst (snd pkt)" "fst (snd (snd pkt))"
      "fst (snd (snd (snd pkt)))" "fst (snd (snd (snd (snd pkt))))" "snd (snd (snd (snd (snd pkt))))" s]
  by (auto simp: update_status_def)

lemma link_receive_receiver:
  assumes ok: "receiver_ok rv cs" and len: "length cs < 4294967295" and d: "carries cs k d"
  shows "receiver_ok (link_receive x now (del, k, sid, a, d, sg) rv) cs"
    and "unat (get_inbound_received_seq rv) \<le>
      unat (get_inbound_received_seq (link_receive x now (del, k, sid, a, d, sg) rv))"
    and "delivered_ok rv ws cs con \<Longrightarrow> frames_ok ws \<Longrightarrow> aligned cs \<Longrightarrow> framed ws = concat cs @ rest \<Longrightarrow>
      delivered_ok (link_receive x now (del, k, sid, a, d, sg) rv) ws cs con"
proof -
  let ?s = "update_status Active rv" and ?rv' = "link_receive x now (del, k, sid, a, d, sg) rv"
  have s: "receiver_ok ?s cs" "get_inbound_received_seq ?s = get_inbound_received_seq rv"
    "delivered_ok rv ws cs con \<Longrightarrow> delivered_ok ?s ws cs con"
    using ok by (simp_all add: receiver_ok_def delivered_ok_def stream_defs)
  consider (same) "?rv' = rv" | (ack) "?rv' = active_status del rv"
    | (data) "message_type d = DataMsg" "?rv' = recv_message now del k d ?s"
    using link_receive_cases by blast
  then have "receiver_ok ?rv' cs \<and>
      unat (get_inbound_received_seq rv) \<le> unat (get_inbound_received_seq ?rv') \<and>
      (delivered_ok rv ws cs con \<longrightarrow> frames_ok ws \<longrightarrow> aligned cs \<longrightarrow> framed ws = concat cs @ rest \<longrightarrow>
        delivered_ok ?rv' ws cs con)"
  proof cases
    case same
    with ok show ?thesis by simp
  next
    case ack
    with ok show ?thesis by (simp add: receiver_ok_def delivered_ok_def)
  next
    case data
    then have k: "0 < unat k" "unat k \<le> length cs" "d = cs ! (unat k - 1)"
      using d by (auto simp: carries_def status_text_type)
    show ?thesis
      using recv_message_chunk [OF s(1) len k, of now del, unfolded chunk_taken_def] s(2,3)
        delivered_ok_recv [OF s(1) len k]
      unfolding data(2) by auto
  qed
  then show "receiver_ok ?rv' cs"
    and "unat (get_inbound_received_seq rv) \<le> unat (get_inbound_received_seq ?rv')"
    and "delivered_ok rv ws cs con \<Longrightarrow> frames_ok ws \<Longrightarrow> aligned cs \<Longrightarrow> framed ws = concat cs @ rest \<Longrightarrow>
      delivered_ok ?rv' ws cs con" by auto
qed

subsection \<open>The invariant\<close>

text \<open>
  One direction of the link: \<open>tx\<close> sends, \<open>rv\<close> receives, \<open>nt\<close> is what \<open>tx\<close> has put on the
  network, \<open>con\<close> what was read from \<open>rv\<close>. Delivery as promised needs writes that fit a frame and
  message boundaries outside of headers.
\<close>

definition dir_ok ::
  "ext \<Rightarrow> VeilidStream \<Rightarrow> VeilidStream \<Rightarrow> bytes set \<Rightarrow> bytes list \<Rightarrow> bytes list \<Rightarrow> bytes \<Rightarrow> bool" where
  "dir_ok x tx rv nt ws cs con \<longleftrightarrow>
     vld0_address (local_address tx) \<and>
     sender_ok tx (unat (get_inbound_received_seq rv)) ws cs \<and>
     net_ok x nt (unat (get_inbound_received_seq tx)) cs \<and>
     receiver_ok rv cs \<and>
     (frames_ok ws \<longrightarrow> aligned cs \<longrightarrow> delivered_ok rv ws cs con)"

definition link_ok :: "ext \<Rightarrow> link \<Rightarrow> bool" where
  "link_ok x s \<longleftrightarrow> (\<forall>p. dir_ok x (ep s p) (ep s (\<not> p)) (net s p) (written s p) (chunks s p)
     (consumed s (\<not> p)))"

definition few_chunks :: "link \<Rightarrow> bool" where
  "few_chunks s \<longleftrightarrow> (\<forall>p. length (chunks s p) < 4294967295)"

lemma both_sides: "P q \<Longrightarrow> P (\<not> q) \<Longrightarrow> P (p :: bool)"
  by (cases p; cases q) simp_all

lemma link_okD: "link_ok x s \<Longrightarrow> dir_ok x (ep s p) (ep s (\<not> p)) (net s p) (written s p) (chunks s p)
     (consumed s (\<not> p))"
  by (simp add: link_ok_def)

lemma link_okD2: "link_ok x s \<Longrightarrow> dir_ok x (ep s (\<not> p)) (ep s p) (net s (\<not> p)) (written s (\<not> p))
     (chunks s (\<not> p)) (consumed s p)"
  using link_okD [of x s "\<not> p"] by simp

text \<open>A step of side \<open>q\<close> has to keep both directions.\<close>

lemma link_okI:
  "dir_ok x (ep s q) (ep s (\<not> q)) (net s q) (written s q) (chunks s q) (consumed s (\<not> q)) \<Longrightarrow>
   dir_ok x (ep s (\<not> q)) (ep s q) (net s (\<not> q)) (written s (\<not> q)) (chunks s (\<not> q)) (consumed s q) \<Longrightarrow>
   link_ok x s"
  unfolding link_ok_def by (rule allI, rule both_sides [of _ q]) simp_all

text \<open>Operations of the sender that do not touch its inbound half.\<close>

lemma dir_ok_receiver_cong:
  assumes "get_inbound_received_seq rv' = get_inbound_received_seq rv"
    and "inbound_message_queue rv' = inbound_message_queue rv"
    and "inbound_buffer rv' = inbound_buffer rv"
    and "con' @ inbound_stream rv' = con @ inbound_stream rv"
    and "dir_ok x tx rv nt ws cs con"
  shows "dir_ok x tx rv' nt ws cs con'"
  using assms by (simp add: dir_ok_def receiver_ok_def delivered_ok_def)

lemma dir_ok_sender_cong:
  assumes "local_address tx' = local_address tx" "get_inbound_received_seq tx' = get_inbound_received_seq tx"
    and "sender_ok tx' (unat (get_inbound_received_seq rv)) ws cs"
    and "dir_ok x tx rv nt ws cs con"
  shows "dir_ok x tx' rv nt ws cs con"
  using assms by (simp add: dir_ok_def)

lemma dir_ok_write:
  assumes "dir_ok x tx rv nt ws cs con" and "poll_write now d tx = (Ready (Inr n), tx', sp)"
  shows "dir_ok x tx' rv nt (ws @ [d]) cs con"
proof -
  have tx': "tx' = tx\<lparr>outbound_stream := outbound_stream tx @ frame d\<rparr>"
    using assms(2)
    by (auto simp: poll_write_def insert_to_outbound_stream_def frame_def Let_def split: if_splits)
  have "delivered_ok rv ws cs con \<Longrightarrow> delivered_ok rv (ws @ [d]) cs con"
    unfolding delivered_ok_def
  proof (elim exE conjE, intro exI conjI)
    fix j assume j: "j \<le> length ws"
      "concat (take (unat (get_inbound_received_seq rv)) cs) = framed (take j ws) @ inbound_buffer rv"
      "con @ inbound_stream rv = concat (take j ws)"
    then show "j \<le> length (ws @ [d])"
      "concat (take (unat (get_inbound_received_seq rv)) cs) =
         framed (take j (ws @ [d])) @ inbound_buffer rv"
      "con @ inbound_stream rv = concat (take j (ws @ [d]))" by simp_all
  qed
  moreover have "sender_ok tx (unat (get_inbound_received_seq rv)) ws cs"
    using assms(1) by (simp add: dir_ok_def)
  then have "sender_ok tx' (unat (get_inbound_received_seq rv)) (ws @ [d]) cs"
    by (rule sender_ok_write) (simp_all add: tx' stream_defs)
  ultimately show ?thesis
    using assms(1) by (simp add: dir_ok_def tx' get_inbound_received_seq_def)
qed

lemma dir_ok_generate:
  assumes ok: "dir_ok x tx rv nt ws cs con"
    and few: "length (cs @ chunks_of 32623 (outbound_stream tx)) < 4294967295"
  shows "dir_ok x (generate_messages tx) rv nt ws (cs @ chunks_of 32623 (outbound_stream tx)) con"
proof -
  let ?new = "chunks_of 32623 (outbound_stream tx)"
  have c: "unat (get_inbound_received_seq rv) \<le> length cs"
    and q: "queue_of_chunks cs (inbound_message_queue rv)"
    using ok by (simp_all add: dir_ok_def receiver_ok_def)
  have "sender_ok (generate_messages tx) (unat (get_inbound_received_seq rv)) ws (cs @ ?new)"
    using ok few c by (intro sender_ok_generate) (simp_all add: dir_ok_def)
  moreover have "net_ok x nt (unat (get_inbound_received_seq tx)) (cs @ ?new)"
    using ok net_ok_mono by (auto simp: dir_ok_def)
  moreover have "receiver_ok rv (cs @ ?new)"
    using c queue_of_chunks_append [OF q] by (simp add: receiver_ok_def)
  moreover have "frames_ok ws \<Longrightarrow> aligned (cs @ ?new) \<Longrightarrow> delivered_ok rv ws (cs @ ?new) con"
    using ok aligned_append [of cs ?new] c by (simp add: dir_ok_def delivered_ok_def)
  ultimately show ?thesis
    using ok by (simp add: dir_ok_def get_inbound_received_seq_def)
qed

lemma dir_ok_net:
  assumes "dir_ok x tx rv nt ws cs con"
    and "net_ok x nt' (unat (get_inbound_received_seq tx)) cs"
  shows "dir_ok x tx rv (nt \<union> nt') ws cs con"
  using assms by (simp add: dir_ok_def net_ok_Un)

lemma dir_ok_send:
  assumes laws: "wire_laws x" and ok: "dir_ok x tx rv nt ws cs con"
    and sm: "send_messages x api now tx = (Return calls, tx')"
  shows "dir_ok x tx' rv (nt \<union> wire_of calls) ws cs con"
proof (rule dir_ok_sender_cong)
  have tx: "vld0_address (local_address tx)" "sender_ok tx (unat (get_inbound_received_seq rv)) ws cs"
    using ok by (simp_all add: dir_ok_def)
  show "local_address tx' = local_address tx" "get_inbound_received_seq tx' = get_inbound_received_seq tx"
    by (simp_all add: send_messages_frame [OF sm] get_inbound_received_seq_def)
  show "sender_ok tx' (unat (get_inbound_received_seq rv)) ws cs"
    by (rule sender_ok_mark [OF tx(2) sm])
  show "dir_ok x tx rv (nt \<union> wire_of calls) ws cs con"
    by (rule dir_ok_net [OF ok net_ok_send [OF laws tx sm]])
qed

lemma dir_ok_status:
  assumes laws: "wire_laws x" and ok: "dir_ok x tx rv nt ws cs con"
    and st: "send_status_if_stale x api now tx = Return calls"
  shows "dir_ok x tx rv (nt \<union> wire_of calls) ws cs con"
  by (rule dir_ok_net [OF ok], rule net_ok_status [OF laws _ st])
    (use ok in \<open>simp add: dir_ok_def\<close>)

text \<open>A delivered message moves the receiver on, and acknowledges to it as a sender.\<close>

lemma dir_ok_deliver:
  assumes ok: "dir_ok x tx rv nt ws cs con" and bwd: "dir_ok x rv tx nt' ws' cs' con'"
    and few: "length cs < 4294967295" and w: "w \<in> nt"
    and dec: "decode_message x w = Return (Inr pkt)"
  shows "dir_ok x tx (link_receive x now pkt rv) nt ws cs con"
    and "dir_ok x (link_receive x now pkt rv) tx nt' ws' cs' con'"
proof -
  obtain del k sid a d sg where pkt: "pkt = (del, k, sid, a, d, sg)"
    and del: "unat del \<le> unat (get_inbound_received_seq tx)" and d: "carries cs k d"
    using ok w dec unfolding dir_ok_def net_ok_def by fastforce
  have rv: "receiver_ok rv cs" and framed: "framed ws = concat cs @ outbound_stream tx"
    using ok by (simp_all add: dir_ok_def sender_ok_def)
  let ?rv' = "link_receive x now pkt rv"
  note recv = link_receive_receiver [OF rv few d, where x = x and now = now and del = del and sid = sid and
      a = a and sg = sg, folded pkt]
  show "dir_ok x tx ?rv' nt ws cs con"
    using ok recv(1) sender_ok_mono [OF _ recv(2)] recv(3) [OF _ _ _ framed]
    by (auto simp: dir_ok_def)
  have "sender_ok ?rv' (unat (get_inbound_received_seq tx)) ws' cs'"
    unfolding pkt
  proof (rule sender_ok_ack [OF _ del])
    show "sender_ok rv (unat (get_inbound_received_seq tx)) ws' cs'"
      using bwd by (simp add: dir_ok_def)
  qed (rule link_receive_sender [OF refl])+
  moreover have "net_ok x nt' (unat (get_inbound_received_seq ?rv')) cs'"
    using bwd net_ok_mono [OF _ recv(2), of x nt' cs' "[]"] by (simp add: dir_ok_def)
  ultimately show "dir_ok x ?rv' tx nt' ws' cs' con'"
    using bwd by (simp add: dir_ok_def link_receive_keys)
qed

subsection \<open>Every step keeps it\<close>

lemma link_ok_init: "link_init x s \<Longrightarrow> link_ok x s"
  by (auto simp: link_ok_def link_init_def fresh_stream_def dir_ok_def sender_ok_def net_ok_def
      receiver_ok_def delivered_ok_def queue_of_chunks_def)

lemma few_chunks_step: "link_step x s t \<Longrightarrow> few_chunks t \<Longrightarrow> few_chunks s"
proof (induction rule: link_step.induct)
  case (generate e s p)
  show ?case
    unfolding few_chunks_def
  proof
    fix q
    have "length (chunks s q) \<le> length (((chunks s)(p := chunks s p @
        chunks_of 32623 (outbound_stream (ep s p)))) q)" by simp
    also have "\<dots> < 4294967295" using generate by (simp add: few_chunks_def)
    finally show "length (chunks s q) < 4294967295" .
  qed
qed (simp_all add: few_chunks_def)

lemma poll_write_frame:
  "poll_write now d s = (Ready (Inr n), s', sp) \<Longrightarrow>
     s' = s\<lparr>outbound_stream := outbound_stream s @ frame d\<rparr>"
  by (auto simp: poll_write_def insert_to_outbound_stream_def frame_def Let_def split: if_splits)

lemma poll_read_frame:
  assumes "poll_read now wk n s = (r, s')"
  shows "get_inbound_received_seq s' = get_inbound_received_seq s"
    and "inbound_message_queue s' = inbound_message_queue s"
    and "inbound_buffer s' = inbound_buffer s"
    and "(case r of Ready (Inr d) \<Rightarrow> d | _ \<Rightarrow> []) @ inbound_stream s' = inbound_stream s"
    and "local_address s' = local_address s" "outbound_stream s' = outbound_stream s"
    and "get_outbound_last_seq s' = get_outbound_last_seq s"
    and "outbound_message_queue s' = outbound_message_queue s"
    and "inbound_last_timestamp s' = inbound_last_timestamp s" "status s' = status s"
  using assms
  by (auto simp: poll_read_def read_inbound_stream_def Let_def stream_defs split: if_splits)

lemma link_ok_step:
  assumes laws: "wire_laws x" and "link_step x s t" "link_ok x s" "few_chunks t"
  shows "link_ok x t"
  using assms(2-4)
proof (induction rule: link_step.induct)
  case (tick s t)
  then show ?case by (simp add: link_ok_def)
next
  case (app_write s d p n e sp)
  have "dir_ok x (ep s (\<not> p)) e (net s (\<not> p)) (written s (\<not> p)) (chunks s (\<not> p)) (consumed s p)"
    by (rule dir_ok_receiver_cong [OF _ _ _ _ link_okD2 [OF app_write(2)]])
      (simp_all add: poll_write_frame [OF app_write(1)] get_inbound_received_seq_def)
  with dir_ok_write [OF link_okD [OF app_write(2)] app_write(1)] show ?case
    by (intro link_okI [of _ _ p]) simp_all
next
  case (generate e s p)
  have "length (chunks s p @ chunks_of 32623 (outbound_stream (ep s p))) < 4294967295"
    using generate(3) by (auto simp: few_chunks_def dest: spec [of _ p])
  note fwd = dir_ok_generate [OF link_okD [OF generate(2)] this]
  have "dir_ok x (ep s (\<not> p)) e (net s (\<not> p)) (written s (\<not> p)) (chunks s (\<not> p)) (consumed s p)"
    by (rule dir_ok_receiver_cong [OF _ _ _ _ link_okD2 [OF generate(2)]])
      (simp_all add: generate(1) get_inbound_received_seq_def)
  with fwd show ?case by (intro link_okI [of _ _ p]) (simp_all add: generate(1))
next
  case (send api s p calls e)
  have "dir_ok x (ep s (\<not> p)) e (net s (\<not> p)) (written s (\<not> p)) (chunks s (\<not> p)) (consumed s p)"
    by (rule dir_ok_receiver_cong [OF _ _ _ _ link_okD2 [OF send(2)]])
      (simp_all add: send_messages_frame [OF send(1)] get_inbound_received_seq_def)
  with dir_ok_send [OF laws link_okD [OF send(2)] send(1)] show ?case
    by (intro link_okI [of _ _ p]) simp_all
next
  case (keepalive api s p calls)
  with dir_ok_status [OF laws link_okD [OF keepalive(2)] keepalive(1)] link_okD2 [OF keepalive(2)]
  show ?case by (intro link_okI [of _ _ p]) simp_all
next
  case (deliver w s p pkt e)
  have few: "length (chunks s (\<not> p)) < 4294967295" using deliver(5) by (simp add: few_chunks_def)
  note d = dir_ok_deliver [OF link_okD2 [OF deliver(4)] link_okD [OF deliver(4)] few deliver(1,2),
      of "link_clock s", folded deliver(3)]
  then show ?case by (intro link_okI [of _ _ p]) simp_all
next
  case (app_read s wk n p r e)
  note fr = poll_read_frame [OF app_read(1)]
  have "sender_ok e (unat (get_inbound_received_seq (ep s (\<not> p)))) (written s p) (chunks s p)"
    using link_okD [OF app_read(2), of p]
    by (simp add: dir_ok_def sender_ok_cong [OF fr(6,7,8)])
  then have "dir_ok x e (ep s (\<not> p)) (net s p) (written s p) (chunks s p) (consumed s (\<not> p))"
    by (rule dir_ok_sender_cong [OF fr(5,1) _ link_okD [OF app_read(2)]])
  moreover have "dir_ok x (ep s (\<not> p)) e (net s (\<not> p)) (written s (\<not> p)) (chunks s (\<not> p))
      (consumed s p @ (case r of Ready (Inr d) \<Rightarrow> d | _ \<Rightarrow> []))"
    by (rule dir_ok_receiver_cong [OF _ _ _ _ link_okD2 [OF app_read(2)]]) (simp_all add: fr)
  ultimately show ?case by (intro link_okI [of _ _ p]) simp_all
qed

text \<open>Along a run, the history that may not overflow is the final one.\<close>

lemma link_reach_ok:
  assumes "wire_laws x"
  shows "link_reach x s \<Longrightarrow> few_chunks s \<Longrightarrow> link_ok x s"
proof (induction rule: link_reach.induct)
  case (init s)
  then show ?case by (simp add: link_ok_init)
next
  case (step s t)
  then show ?case using link_ok_step [OF assms] few_chunks_step by blast
qed

subsection \<open>Delivery\<close>

text \<open>
  C1: What a side has read, together with what it can read, is the concatenation of the first
  \<open>j\<close> writes of the other side, in order, nothing lost, doubled or torn, in every reachable
  state of the two nodes over a network that loses, repeats and reorders messages. It needs
  that the sent history fits the sequence numbers, that each write fits its length header,
  and that no message boundary cuts a header (the code loses data
  there).
\<close>

theorem delivery_in_order:
  assumes "wire_laws x" and "link_reach x s" and "few_chunks s"
    and "frames_ok (written s p)" and "aligned (chunks s p)"
  shows "\<exists>j \<le> length (written s p).
    consumed s (\<not> p) @ inbound_stream (ep s (\<not> p)) = concat (take j (written s p))"
  using link_okD [OF link_reach_ok [OF assms(1-3)], of p] assms(4,5)
  by (auto simp: dir_ok_def delivered_ok_def)

lemma sample_aligned: "aligned [frame sample_data]"
proof -
  have "frames_ok [sample_data]" by (simp add: sample_data_def)
  from ends_in_header_framed [OF this, of "[]"] have "\<not> ends_in_header (frame sample_data)"
    by (simp add: ends_in_header_def)
  moreover have "\<not> ends_in_header []" by (simp add: ends_in_header_def)
  ultimately show ?thesis
    unfolding aligned_def
  proof (intro allI impI)
    fix c assume "\<not> ends_in_header (frame sample_data)" "\<not> ends_in_header []"
      "c \<le> length [frame sample_data]"
    then show "\<not> ends_in_header (concat (take c [frame sample_data]))"
      by (cases c) simp_all
  qed
qed

lemma sample_few_chunks: "few_chunks link_end"
  unfolding few_chunks_def by (rule allI, rule both_sides [of _ True]) simp_all

lemma delivery_in_order_witness:
  "(\<exists>j \<le> length (written link_end True).
      consumed link_end False @ inbound_stream (ep link_end False) =
        concat (take j (written link_end True))) \<and>
   consumed link_end False = [104, 105]"
proof
  have "frames_ok (written link_end True)" "aligned (chunks link_end True)"
    using sample_aligned by (simp_all add: sample_data_def)
  from delivery_in_order [OF sample_wire_laws link_end_reach sample_few_chunks this]
  show "\<exists>j \<le> length (written link_end True).
      consumed link_end False @ inbound_stream (ep link_end False) =
        concat (take j (written link_end True))" by simp
  show "consumed link_end False = [104, 105]" by (simp add: sample_data_def)
qed

text \<open>
  C8: No data is lost at the sender: the bytes of all accepted writes are those of the
  numbered messages followed by the bytes not yet cut, and every message past the other
  side's cursor is still queued for (re)sending with its data, in every reachable state.
\<close>

theorem undelivered_stays_queued:
  assumes "wire_laws x" and "link_reach x s" and "few_chunks s"
  shows "framed (written s p) = concat (chunks s p) @ outbound_stream (ep s p) \<and>
    (\<forall>k. unat (get_inbound_received_seq (ep s (\<not> p))) < unat k \<and> unat k \<le> length (chunks s p) \<longrightarrow>
      (\<exists>m. hm_get k (outbound_message_queue (ep s p)) = Some m \<and>
        data m = chunks s p ! (unat k - 1)))"
proof -
  have "sender_ok (ep s p) (unat (get_inbound_received_seq (ep s (\<not> p)))) (written s p) (chunks s p)"
    using link_okD [OF link_reach_ok [OF assms], of p] by (simp add: dir_ok_def)
  then show ?thesis unfolding sender_ok_def by blast
qed

lemma undelivered_stays_queued_witness:
  "hm_get 1 (outbound_message_queue (ep link_sent True)) \<noteq> None"
proof -
  have few: "few_chunks link_sent"
    unfolding few_chunks_def by (rule allI, rule both_sides [of _ True]) (simp_all add: link_sent_def)
  from undelivered_stays_queued [OF sample_wire_laws link_sent_reach few, of True]
  have "\<forall>k. unat (get_inbound_received_seq (ep link_sent False)) < unat k \<and>
      unat k \<le> length (chunks link_sent True) \<longrightarrow>
      (\<exists>m. hm_get k (outbound_message_queue (ep link_sent True)) = Some m)" by auto
  moreover have "unat (get_inbound_received_seq (ep link_sent False)) = 0"
    by (simp add: link_sent_def get_inbound_received_seq_def)
  ultimately show ?thesis by (auto simp: link_sent_def dest: spec [of _ 1])
qed

text \<open>
  C16: A receiver's cursor never passes what was sent, and every early message it holds is the
  chunk of its number: no forged, torn or misplaced data is ever in its queue.
\<close>

theorem receiver_holds_sent_chunks:
  assumes "wire_laws x" and "link_reach x s" and "few_chunks s"
  shows "unat (get_inbound_received_seq (ep s (\<not> p))) \<le> length (chunks s p) \<and>
    (\<forall>k d. hm_get k (inbound_message_queue (ep s (\<not> p))) = Some d \<longrightarrow>
       0 < unat k \<and> unat k \<le> length (chunks s p) \<and> d = chunks s p ! (unat k - 1))"
  using link_okD [OF link_reach_ok [OF assms], of p]
  by (auto simp: dir_ok_def receiver_ok_def queue_of_chunks_def)

lemma receiver_holds_sent_chunks_witness:
  "unat (get_inbound_received_seq (ep link_end False)) \<le> length (chunks link_end True) \<and>
   get_inbound_received_seq (ep link_end False) = 1"
  using receiver_holds_sent_chunks [OF sample_wire_laws link_end_reach sample_few_chunks, of True]
  by (simp add: sample_read_eval)

end
