(* ===== verification/Delivery_Limits.thy ===== *)
theory Delivery_Limits
  imports Delivery_Safety
begin

text \<open>
  Where delivery stops holding, and where it does not. Cutting each write before the next is
  accepted keeps headers whole and delivers in order without further condition, a message
  boundary inside a header loses complete writes, and a message that begins like a control
  message is never taken in, which stops the stream for good.
\<close>

subsection \<open>Whole headers\<close>

lemma concat_chunks_take_prefix:
  "prefix (concat (take i (chunks_of 32623 b))) b"
proof -
  have "b = concat (take i (chunks_of 32623 b)) @ concat (drop i (chunks_of 32623 b))"
    by (metis append_take_drop_id concat_append concat_chunks_of zero_less_numeral)
  then show ?thesis by (metis prefixI)
qed

lemma chunks_take_long:
  assumes "4 \<le> length b" and "0 < i"
  shows "4 \<le> length (concat (take i (chunks_of 32623 b)))"
proof -
  have "chunks_of 32623 b = take 32623 b # chunks_of 32623 (drop 32623 b)"
    using assms(1) by (subst chunks_of.simps) auto
  with assms show ?thesis by (cases i) auto
qed

lemma not_ends_in_header_prefix:
  assumes "prefix b (frame d)" and "length d < 4294967296" and "b = [] \<or> 4 \<le> length b"
  shows "\<not> ends_in_header b"
proof (cases "b = frame d")
  case True
  then show ?thesis
    using ends_in_header_framed [of "[d]" "[]"] assms(2) by (simp add: ends_in_header_def)
next
  case False
  then have "strict_prefix b (frame d)" using assms(1) by (simp add: strict_prefix_def)
  then obtain ex where ex: "deframe_loop b [] = (ex, [], b)"
    using deframe_loop_strict_prefix [OF _ assms(2), of b "[]"] by auto
  with deframe_loop_exit [OF ex] assms(3) show ?thesis by (auto simp: ends_in_header_def)
qed

lemma take_concat_map:
  "\<exists>j i. j \<le> length xs \<and> take c (concat (map f xs)) =
     concat (map f (take j xs)) @ (if j < length xs then take i (f (xs ! j)) else [])"
proof (induction xs arbitrary: c)
  case Nil
  then show ?case by simp
next
  case (Cons a xs)
  show ?case
  proof (cases "c \<le> length (f a)")
    case True
    then show ?thesis by (intro exI [of _ 0] exI [of _ c]) simp
  next
    case False
    obtain j i where "j \<le> length xs" "take (c - length (f a)) (concat (map f xs)) =
      concat (map f (take j xs)) @ (if j < length xs then take i (f (xs ! j)) else [])"
      using Cons.IH by blast
    with False show ?thesis by (intro exI [of _ "Suc j"] exI [of _ i]) simp
  qed
qed

text \<open>Writes that are cut each on its own: every message boundary is outside of headers.\<close>

lemma aligned_one_write_each:
  assumes "frames_ok ws"
  shows "aligned (concat (map (\<lambda>d. chunks_of 32623 (frame d)) ws))"
  unfolding aligned_def
proof (intro allI impI)
  fix c
  let ?f = "\<lambda>d. chunks_of 32623 (frame d)"
  obtain j i where j: "j \<le> length ws" "take c (concat (map ?f ws)) =
      concat (map ?f (take j ws)) @ (if j < length ws then take i (?f (ws ! j)) else [])"
    using take_concat_map by blast
  have whole: "concat (concat (map ?f ds)) = framed ds" for ds
    by (induction ds) (simp_all add: concat_chunks_of)
  show "\<not> ends_in_header (concat (take c (concat (map ?f ws))))"
  proof (cases "j < length ws")
    case True
    have "length (ws ! j) < 4294967296" using assms True by (simp add: frames_ok_def)
    moreover have "concat (take i (?f (ws ! j))) = [] \<or> 4 \<le> length (concat (take i (?f (ws ! j))))"
      using chunks_take_long [of "frame (ws ! j)" i] by (cases "i = 0") simp_all
    ultimately have "\<not> ends_in_header (concat (take i (?f (ws ! j))))"
      by (intro not_ends_in_header_prefix [OF concat_chunks_take_prefix])
    then show ?thesis
      using True ends_in_header_framed [OF frames_ok_take [OF assms]] by (simp add: j(2) whole)
  next
    case False
    then show ?thesis
      using ends_in_header_framed [OF frames_ok_take [OF assms], of j "[]"]
      by (simp add: j(2) whole) (simp add: ends_in_header_def)
  qed
qed

text \<open>
  A run in which side \<open>p\<close> accepts a write only when all earlier bytes have been cut, as when the
  task \<open>insert_to_outbound_stream\<close> spawns for an active stream always runs before the next write.
\<close>

inductive prompt_reach :: "ext \<Rightarrow> bool \<Rightarrow> link \<Rightarrow> bool" for x :: ext and p :: bool where
  init: "link_init x s \<Longrightarrow> prompt_reach x p s"
| step: "prompt_reach x p s \<Longrightarrow> link_step x s t \<Longrightarrow>
    (written t p \<noteq> written s p \<longrightarrow> outbound_stream (ep s p) = []) \<Longrightarrow> prompt_reach x p t"

lemma prompt_reach_link: "prompt_reach x p s \<Longrightarrow> link_reach x s"
  by (induction rule: prompt_reach.induct) (auto intro: link_reach.intros)

definition cut_each :: "bytes list \<Rightarrow> bytes list" where
  "cut_each ws = concat (map (\<lambda>d. chunks_of 32623 (frame d)) ws)"

definition prompt_ok :: "bytes list \<Rightarrow> bytes list \<Rightarrow> bytes \<Rightarrow> bool" where
  "prompt_ok ws cs out \<longleftrightarrow>
     (out = [] \<and> cs = cut_each ws) \<or> (\<exists>vs d. ws = vs @ [d] \<and> out = frame d \<and> cs = cut_each vs)"

lemma prompt_ok_write: "prompt_ok ws cs [] \<Longrightarrow> prompt_ok (ws @ [d]) cs (frame d)"
  by (auto simp: prompt_ok_def frame_not_Nil [symmetric])

lemma prompt_ok_generate: "prompt_ok ws cs out \<Longrightarrow> prompt_ok ws (cs @ chunks_of 32623 out) []"
  by (auto simp: prompt_ok_def cut_each_def)

lemma link_receive_outbound: "outbound_stream (link_receive x now pkt s) = outbound_stream s"
  by (cases pkt) (simp add: link_receive_sender(1) [OF refl])

lemma prompt_reach_ok:
  "prompt_reach x p s \<Longrightarrow> prompt_ok (written s p) (chunks s p) (outbound_stream (ep s p))"
proof (induction rule: prompt_reach.induct)
  case (init s)
  then show ?case by (simp add: link_init_def fresh_stream_def prompt_ok_def cut_each_def)
next
  case (step s t)
  from step(2,3,4) show ?case
  proof (cases rule: link_step.cases)
    case (app_write d q n e sp)
    then show ?thesis
      using step(3,4) prompt_ok_write [of "written s p" "chunks s p" d] poll_write_frame [OF app_write(2)]
      by (cases "q = p") auto
  next
    case (generate e q)
    then show ?thesis
      using prompt_ok_generate [OF step(4)] step(4) by (cases "q = p") (auto simp: generate_messages_frame)
  next
    case (send api q calls e)
    then show ?thesis
      using step(4) send_messages_frame [OF send(2)] by (cases "q = p") auto
  next
    case (deliver w q pkt e)
    then show ?thesis using step(4) by (auto simp: link_receive_outbound)
  next
    case (app_read wk n q r e)
    then show ?thesis using step(4) by (auto simp: poll_read_frame(6) [OF app_read(2)])
  qed (use step(4) in simp_all)
qed

text \<open>
  C25: A sender that cuts promptly is delivered in order without further condition: if a side's
  writes are accepted only when all its earlier bytes have been cut into messages, no message
  boundary the program makes falls inside a length header, so that what the other side has read
  and can read is the concatenation of the first writes, whatever the network does. (The
  program cuts this way while a stream is active and its spawned tasks keep up; writes that
  gather while a stream is not active are cut together, and may lose data as in C11.)
\<close>

theorem prompt_cutting_delivers:
  assumes "wire_laws x" and "prompt_reach x p s" and "few_chunks s" and "frames_ok (written s p)"
  shows "aligned (chunks s p) \<and> (\<exists>j \<le> length (written s p).
    consumed s (\<not> p) @ inbound_stream (ep s (\<not> p)) = concat (take j (written s p)))"
proof
  have ok: "prompt_ok (written s p) (chunks s p) (outbound_stream (ep s p))"
    by (rule prompt_reach_ok [OF assms(2)])
  have "frames_ok vs" if "written s p = vs @ [d]" for vs d
    using assms(4) that frames_ok_take [of "vs @ [d]" "length vs"] by simp
  then show al: "aligned (chunks s p)"
    using ok aligned_one_write_each assms(4) unfolding prompt_ok_def cut_each_def by auto
  show "\<exists>j \<le> length (written s p).
      consumed s (\<not> p) @ inbound_stream (ep s (\<not> p)) = concat (take j (written s p))"
    using link_okD [OF link_reach_ok [OF assms(1) prompt_reach_link [OF assms(2)] assms(3)], of p] assms(4) al
    by (auto simp: dir_ok_def delivered_ok_def)
qed

text \<open>One write, cut at once.\<close>

definition link_cut :: link where
  "link_cut = link_start\<lparr>ep := (\<lambda>q. if q then sample_generated else sample_stream 2 1),
     written := (\<lambda>q. if q then [sample_data] else []),
     chunks := (\<lambda>q. if q then [frame sample_data] else [])\<rparr>"

lemma link_cut_reach: "prompt_reach sample_ext True link_cut"
proof -
  let ?w = "link_start\<lparr>ep := (ep link_start)(True := sample_written),
    written := (written link_start)(True := written link_start True @ [sample_data])\<rparr>"
  have w: "prompt_reach sample_ext True ?w"
  proof (rule prompt_reach.step [OF prompt_reach.init [OF link_start_init] link_step.app_write])
    show "poll_write (link_clock link_start) sample_data (ep link_start True) =
      (Ready (Inr 2), sample_written, True)"
      by (simp add: link_start_def sample_written_eval poll_write_def insert_to_outbound_stream_def
          is_expired_def is_active_def frame_def Let_def sample_data_def)
  qed (simp add: link_start_def)
  have "prompt_reach sample_ext True (?w\<lparr>ep := (ep ?w)(True := sample_generated),
    chunks := (chunks ?w)(True := chunks ?w True @ chunks_of 32623 (outbound_stream (ep ?w True)))\<rparr>)"
    by (rule prompt_reach.step [OF w link_step.generate]) (simp_all add: sample_generated_def)
  then show ?thesis
    by (simp add: link_start_def link_cut_def fun_upd_if sample_chunks_eval)
qed

lemma prompt_cutting_delivers_witness:
  "aligned (chunks link_cut True) \<and> chunks link_cut True = [frame sample_data]"
proof -
  have "few_chunks link_cut"
    unfolding few_chunks_def by (rule allI, rule both_sides [of _ True]) (simp_all add: link_cut_def)
  with prompt_cutting_delivers [OF sample_wire_laws link_cut_reach] show ?thesis
    by (simp add: link_cut_def sample_data_def)
qed

subsection \<open>A boundary inside a header\<close>

text \<open>
  C11: A message boundary inside a length header loses writes. When the bytes taken in with a
  message (and with the early messages that follow it) end one to three bytes into a header,
  the complete writes \<open>ds\<close> before it leave the receiver's buffer without ever becoming readable,
  while the message is counted as received. And the program makes such messages: of two writes
  that are cut together, the first of 32616 to 32618 bytes, message 1 carries the first write
  whole and one to three bytes of the second header.
\<close>

theorem header_split_loses_write:
  assumes "is_active now s" and "\<not> k \<le> get_inbound_received_seq s"
    and "\<not> k > get_inbound_received_seq s + 1"
    and "drain_queue (get_inbound_received_seq s + 1) (inbound_message_queue s) (inbound_buffer s @ d) =
      (final_seq, queue, framed ds @ rest)"
    and "frames_ok ds" and "0 < length rest" and "length rest < 4"
    and "outbound_stream t = framed [w1, w2]" and "get_outbound_last_seq t = 0"
    and "32616 \<le> length w1" and "length w1 \<le> 32618" and "length w2 < 4294967296"
  shows "(let s' = recv_message now del k d s in
      inbound_stream s' = inbound_stream s \<and> inbound_buffer s' = rest \<and>
      get_inbound_received_seq s' = final_seq) \<and>
    (\<exists>m cut. hm_get 1 (outbound_message_queue (generate_messages t)) = Some m \<and>
      data m = framed [w1] @ cut \<and> 0 < length cut \<and> length cut < 4)"
proof
  let ?t = "remove_sent_messages_from_queue (update_outbound_delivered_seq del
     (update_inbound_received_seq final_seq (s\<lparr>inbound_message_queue := queue,
        inbound_buffer := framed ds @ rest\<rparr>)))"
  have "update_inbound_stream ?t = ?t\<lparr>inbound_buffer := rest\<rparr>"
    by (rule update_inbound_stream_short_header [OF _ assms(5-7)])
      (simp add: remove_sent_messages_from_queue_def stream_defs)
  then show "let s' = recv_message now del k d s in
      inbound_stream s' = inbound_stream s \<and> inbound_buffer s' = rest \<and>
      get_inbound_received_seq s' = final_seq"
    unfolding recv_message_next [OF assms(2,3,1,4)]
    by (simp add: remove_sent_messages_from_queue_def stream_defs)
next
  let ?r = "take (32619 - length w1) (frame w2)"
  have cs: "chunks_of 32623 (outbound_stream t) = (framed [w1] @ ?r) # chunks_of 32623 (drop 32623 (framed [w1, w2]))"
    unfolding assms(8) using assms(10,11) by (subst chunks_of.simps) simp
  have few: "0 + length (chunks_of 32623 (outbound_stream t)) < 4294967296"
    using length_chunks_of [of 32623 "outbound_stream t"] assms(8,11,12) by simp
  have 0: "get_outbound_last_seq t = of_nat 0" using assms(9) by simp
  have "hm_get 1 (outbound_message_queue (generate_messages t)) =
      Some \<lparr>seq = 1, data = framed [w1] @ ?r, last_try_send = None\<rparr>"
    using generate_messages_spec(2) [OF 0 few] cs by simp
  then show "\<exists>m cut. hm_get 1 (outbound_message_queue (generate_messages t)) = Some m \<and>
      data m = framed [w1] @ cut \<and> 0 < length cut \<and> length cut < 4"
    using assms(10,11) by (intro exI conjI) auto
qed

lemma header_split_loses_write_witness:
  "inbound_stream (recv_message 0 0 1 (framed [[65]] @ take 2 (frame [66])) (sample_stream 2 1)) = []"
proof -
  let ?s = "sample_stream 2 1" and ?d = "framed [[65]] @ take 2 (frame [66])"
  let ?t = "(sample_stream 1 2)\<lparr>outbound_stream := framed [replicate 32617 65, [66]]\<rparr>"
  have 0: "get_inbound_received_seq ?s = 0" by (simp add: get_inbound_received_seq_def)
  have "drain_queue (get_inbound_received_seq ?s + 1) (inbound_message_queue ?s) (inbound_buffer ?s @ ?d) =
      (1, [], framed [[65]] @ take 2 (frame [66]))"
    by (simp add: 0 drain_queue.simps hm_get_def)
  from header_split_loses_write [OF _ _ _ this, of 0 1 ?t "replicate 32617 65" "[66]" 0]
  show ?thesis by (simp add: 0 is_active_def get_outbound_last_seq_def Let_def)
qed

subsection \<open>Data that looks like a control message\<close>

lemma drain_queue_typed:
  assumes "queue_of_chunks cs q" "length cs < 4294967295" "n \<le> length cs"
    and "\<forall>k d. hm_get k q = Some d \<longrightarrow> P d"
    and "drain_queue (of_nat n) q b = (of_nat m, q', b')" "m \<le> length cs"
  shows "(\<forall>i. n \<le> i \<and> i < m \<longrightarrow> P (cs ! i)) \<and> (\<forall>k d. hm_get k q' = Some d \<longrightarrow> P d)"
  using assms
proof (induction "of_nat n :: u32" q b arbitrary: n rule: drain_queue.induct)
  case (1 q b)
  show ?case
  proof (cases "hm_get (of_nat n + 1 :: u32) q")
    case None
    then have "(of_nat n :: u32) = of_nat m" "q' = q"
      using 1(6) by (simp_all add: drain_queue_absent)
    moreover from this(1) have "n = m"
      using 1(3,4,7) u32_of_nat(3) [of n m] by simp
    ultimately show ?thesis using 1(5) by auto
  next
    case (Some d)
    have n: "unat (of_nat n + 1 :: u32) = Suc n"
      using 1(3,4) by (simp add: u32_of_nat_Suc del: of_nat_Suc)
    from queue_of_chunksD [OF 1(2) Some] n have d: "Suc n \<le> length cs" "d = cs ! n" by auto
    have "\<forall>k d. hm_get k (hm_remove (of_nat n + 1) q) = Some d \<longrightarrow> P d"
      using 1(5) by (auto dest: hm.get_remove_SomeD)
    moreover have "drain_queue (of_nat (Suc n)) (hm_remove (of_nat n + 1) q) (b @ d) =
        (of_nat m, q', b')"
      using 1(6) drain_queue_present [OF Some, of b] by (simp add: add.commute)
    ultimately have "(\<forall>i. Suc n \<le> i \<and> i < m \<longrightarrow> P (cs ! i)) \<and>
        (\<forall>k d. hm_get k q' = Some d \<longrightarrow> P d)"
      using 1(1) [OF Some _ queue_of_chunks_remove [OF 1(2)] 1(3) d(1) _ _ 1(7)]
      by (simp add: add.commute)
    moreover have "P (cs ! n)" using 1(5) Some d by auto
    ultimately show ?thesis by (metis Suc_leI le_neq_implies_less)
  qed
qed

text \<open>Everything taken in, or held for later, is of type \<open>DataMsg\<close>.\<close>

definition typed_ok :: "VeilidStream \<Rightarrow> bytes list \<Rightarrow> bool" where
  "typed_ok rv cs \<longleftrightarrow>
     (\<forall>i < unat (get_inbound_received_seq rv). message_type (cs ! i) = DataMsg) \<and>
     (\<forall>k d. hm_get k (inbound_message_queue rv) = Some d \<longrightarrow> message_type d = DataMsg)"

lemma typed_ok_recv:
  assumes ok: "receiver_ok rv cs" and len: "length cs < 4294967295" and ty: "typed_ok rv cs"
    and k: "0 < unat k" "unat k \<le> length cs" "d = cs ! (unat k - 1)" and dt: "message_type d = DataMsg"
  shows "typed_ok (recv_message now del k d rv) cs"
proof -
  let ?c = "get_inbound_received_seq rv" and ?rv' = "recv_message now del k d rv"
  have c: "unat ?c \<le> length cs" and q: "queue_of_chunks cs (inbound_message_queue rv)"
    using ok by (simp_all add: receiver_ok_def)
  have tyq: "\<forall>k d. hm_get k (inbound_message_queue rv) = Some d \<longrightarrow> message_type d = DataMsg"
    using ty by (simp add: typed_ok_def)
  have c1: "unat (?c + 1) = unat ?c + 1"
    using c len by (simp add: unat_word_ariths)
  consider (same) "?rv' = rv"
    | (early) "?rv' = rv\<lparr>inbound_message_queue := hm_insert k d (inbound_message_queue rv)\<rparr>"
    | (nxt) "\<not> k \<le> ?c" "\<not> k > ?c + 1" "is_active now rv"
    by (metis recv_message_duplicate recv_message_early recv_message_next_inactive)
  then show ?thesis
  proof cases
    case same
    with ty show ?thesis by simp
  next
    case early
    with ty dt show ?thesis
      by (auto simp: typed_ok_def get_inbound_received_seq_def hm.get_insert)
  next
    case nxt
    then have kc: "unat k = Suc (unat ?c)" using c1 by (simp add: word_less_nat_alt word_le_nat_alt)
    have d: "d = cs ! unat ?c" "Suc (unat ?c) \<le> length cs" using k kc by simp_all
    have c1': "?c + 1 = of_nat (Suc (unat ?c))" using c1 by (metis Suc_eq_plus1 u32_of_nat_unat)
    with drain_queue_chunks [OF q len d(2), of "inbound_buffer rv @ d"] obtain m q' r where
      m: "Suc (unat ?c) \<le> m" "m \<le> length cs"
      "drain_queue (?c + 1) (inbound_message_queue rv) (inbound_buffer rv @ d) =
         (of_nat m, q', (inbound_buffer rv @ d) @ r)" by auto
    have ts: "(\<forall>i. Suc (unat ?c) \<le> i \<and> i < m \<longrightarrow> message_type (cs ! i) = DataMsg) \<and>
        (\<forall>k d. hm_get k q' = Some d \<longrightarrow> message_type d = DataMsg)"
      using drain_queue_typed [OF q len d(2) tyq _ m(2)] m(3) c1' by auto
    have um: "unat (of_nat m :: u32) = m" using m(2) len by simp
    have "get_inbound_received_seq ?rv' = of_nat m" "inbound_message_queue ?rv' = q'"
      unfolding recv_message_next [OF nxt m(3)]
      by (simp_all add: stream_defs remove_sent_messages_from_queue_def)
    moreover have "message_type (cs ! i) = DataMsg" if "i < m" for i
      using that ts ty dt d(1) unfolding typed_ok_def
      by (metis Suc_leI le_neq_implies_less not_less_eq_eq not_le_imp_less)
    ultimately show ?thesis using ts um by (simp add: typed_ok_def)
  qed
qed

lemma typed_ok_append:
  "unat (get_inbound_received_seq rv) \<le> length cs \<Longrightarrow> typed_ok rv cs \<Longrightarrow> typed_ok rv (cs @ ds)"
  by (simp add: typed_ok_def nth_append)

lemma typed_ok_cong:
  "get_inbound_received_seq rv' = get_inbound_received_seq rv \<Longrightarrow>
    inbound_message_queue rv' = inbound_message_queue rv \<Longrightarrow> typed_ok rv cs \<Longrightarrow> typed_ok rv' cs"
  by (simp add: typed_ok_def)

lemma typed_ok_link_receive:
  assumes "receiver_ok rv cs" "length cs < 4294967295" "typed_ok rv cs" "carries cs k d"
  shows "typed_ok (link_receive x now (del, k, sid, a, d, sg) rv) cs"
proof -
  let ?s = "update_status Active rv" and ?rv' = "link_receive x now (del, k, sid, a, d, sg) rv"
  consider (same) "?rv' = rv" | (ack) "?rv' = active_status del rv"
    | (data) "message_type d = DataMsg" "?rv' = recv_message now del k d ?s"
    using link_receive_cases by blast
  then show ?thesis
  proof cases
    case data
    have "receiver_ok ?s cs" "typed_ok ?s cs"
      using assms(1,3) by (simp_all add: receiver_ok_def typed_ok_def stream_defs)
    moreover have "0 < unat k" "unat k \<le> length cs" "d = cs ! (unat k - 1)"
      using assms(4) data(1) by (auto simp: carries_def status_text_type)
    ultimately show ?thesis unfolding data(2) using typed_ok_recv assms(2) data(1) by blast
  qed (use assms(3) in \<open>simp_all add: typed_ok_def\<close>)
qed

definition link_typed :: "link \<Rightarrow> bool" where
  "link_typed s \<longleftrightarrow> (\<forall>p. typed_ok (ep s (\<not> p)) (chunks s p))"

lemma link_typedI: "typed_ok (ep s (\<not> q)) (chunks s q) \<Longrightarrow> typed_ok (ep s q) (chunks s (\<not> q)) \<Longrightarrow>
    link_typed s"
  unfolding link_typed_def by (rule allI, rule both_sides [of _ q]) simp_all

lemma link_typedD:
  "link_typed s \<Longrightarrow> typed_ok (ep s (\<not> p)) (chunks s p)"
  "link_typed s \<Longrightarrow> typed_ok (ep s p) (chunks s (\<not> p))"
  unfolding link_typed_def by (auto dest: spec [of _ p] spec [of _ "\<not> p"])

lemma link_typed_step:
  assumes "link_step x s t" "link_ok x s" "few_chunks t" "link_typed s"
  shows "link_typed t"
  using assms
proof (induction rule: link_step.induct)
  case (tick s t)
  then show ?case by (simp add: link_typed_def)
next
  case (app_write s d p n e sp)
  have "typed_ok e (chunks s (\<not> p))"
    by (rule typed_ok_cong [OF _ _ link_typedD(2) [OF app_write(4)]])
      (simp_all add: poll_write_frame [OF app_write(1)] get_inbound_received_seq_def)
  with link_typedD(1) [OF app_write(4), of p] show ?case by (intro link_typedI [of _ p]) simp_all
next
  case (generate e s p)
  have "typed_ok e (chunks s (\<not> p))"
    by (rule typed_ok_cong [OF _ _ link_typedD(2) [OF generate(4)]])
      (simp_all add: generate(1) get_inbound_received_seq_def)
  moreover have "unat (get_inbound_received_seq (ep s (\<not> p))) \<le> length (chunks s p)"
    using link_okD [OF generate(2), of p] by (simp add: dir_ok_def receiver_ok_def)
  ultimately show ?case
    using typed_ok_append link_typedD(1) [OF generate(4), of p]
    by (intro link_typedI [of _ p]) simp_all
next
  case (send api s p calls e)
  have "typed_ok e (chunks s (\<not> p))"
    by (rule typed_ok_cong [OF _ _ link_typedD(2) [OF send(4)]])
      (simp_all add: send_messages_frame [OF send(1)] get_inbound_received_seq_def)
  with link_typedD(1) [OF send(4), of p] show ?case by (intro link_typedI [of _ p]) simp_all
next
  case (keepalive api s p calls)
  then show ?case by (simp add: link_typed_def)
next
  case (deliver w s p pkt e)
  obtain del k sid a d sg where pkt: "pkt = (del, k, sid, a, d, sg)"
    and d: "carries (chunks s (\<not> p)) k d"
    using link_okD2 [OF deliver(4), of p] deliver(1,2) unfolding dir_ok_def net_ok_def by fastforce
  have "receiver_ok (ep s p) (chunks s (\<not> p))" "length (chunks s (\<not> p)) < 4294967295"
    using link_okD2 [OF deliver(4), of p] deliver(5) by (simp_all add: dir_ok_def few_chunks_def)
  from typed_ok_link_receive [OF this link_typedD(2) [OF deliver(6)] d] deliver(3)
  have "typed_ok e (chunks s (\<not> p))" by (simp add: pkt)
  with link_typedD(1) [OF deliver(6), of p] show ?case by (intro link_typedI [of _ p]) simp_all
next
  case (app_read s wk n p r e)
  have "typed_ok e (chunks s (\<not> p))"
    by (rule typed_ok_cong [OF _ _ link_typedD(2) [OF app_read(4)]])
      (simp_all add: poll_read_frame [OF app_read(1)])
  with link_typedD(1) [OF app_read(4), of p] show ?case by (intro link_typedI [of _ p]) simp_all
qed

lemma link_reach_typed:
  assumes "wire_laws x"
  shows "link_reach x s \<Longrightarrow> few_chunks s \<Longrightarrow> link_typed s"
proof (induction rule: link_reach.induct)
  case (init s)
  then show ?case
    by (simp add: link_typed_def link_init_def fresh_stream_def typed_ok_def)
next
  case (step s t)
  then show ?case
    using link_typed_step [OF step(2)] link_reach_ok [OF assms step(1)] few_chunks_step by blast
qed

text \<open>
  C10: A message whose data begins with the bytes of \<open>DIAL\<close>, \<open>LISTEN\<close>, \<open>STATUS\<close> or \<open>PING\<close> is
  never taken in: in no reachable state is the receiver's cursor past it, however often it is
  sent again, so nothing written after it is ever delivered.
\<close>

theorem control_like_data_stalls:
  assumes "wire_laws x" and "link_reach x s" and "few_chunks s"
    and "n < length (chunks s p)" and "message_type (chunks s p ! n) \<noteq> DataMsg"
  shows "unat (get_inbound_received_seq (ep s (\<not> p))) \<le> n"
  using link_typedD(1) [OF link_reach_typed [OF assms(1-3)], of p] assms(5)
  unfolding typed_ok_def by (metis not_less)

text \<open>A link whose first write puts \<open>PING\<close> at the start of the second message.\<close>

definition ping_data :: bytes where
  "ping_data = replicate 32619 0 @ ascii ''PING''"

definition ping_written :: VeilidStream where
  "ping_written = (sample_stream 1 2)\<lparr>outbound_stream := frame ping_data\<rparr>"

definition link_ping :: link where
  "link_ping = \<lparr>ep = (\<lambda>p. if p then generate_messages ping_written else sample_stream 2 1),
     net = (\<lambda>p. {}), written = (\<lambda>p. if p then [ping_data] else []),
     chunks = (\<lambda>p. if p then chunks_of 32623 (frame ping_data) else []), consumed = (\<lambda>p. []),
     link_clock = 0\<rparr>"

lemma link_ping_reach: "link_reach sample_ext link_ping"
proof -
  let ?w = "link_start\<lparr>ep := (ep link_start)(True := ping_written),
    written := (written link_start)(True := written link_start True @ [ping_data])\<rparr>"
  have w: "link_reach sample_ext ?w"
  proof (rule link_reach.step [OF link_reach.init [OF link_start_init] link_step.app_write])
    show "poll_write (link_clock link_start) ping_data (ep link_start True) =
      (Ready (Inr (length ping_data)), ping_written, True)"
      by (simp add: link_start_def ping_written_def poll_write_def insert_to_outbound_stream_def
          is_expired_def is_active_def frame_def Let_def)
  qed
  have "link_reach sample_ext (?w\<lparr>ep := (ep ?w)(True := generate_messages ping_written),
    chunks := (chunks ?w)(True := chunks ?w True @ chunks_of 32623 (outbound_stream (ep ?w True)))\<rparr>)"
    by (rule link_reach.step [OF w link_step.generate]) simp
  moreover have "outbound_stream ping_written = frame ping_data" by (simp add: ping_written_def)
  ultimately show ?thesis
    by (simp add: link_start_def link_ping_def fun_upd_if)
qed

lemma ping_chunks: "chunks_of 32623 (frame ping_data) = [take 32623 (frame ping_data), ascii ''PING'']"
proof -
  have d: "drop 32623 (frame ping_data) = ascii ''PING''"
    by (simp add: frame_def ping_data_def)
  have "frame ping_data \<noteq> []" by simp
  moreover have "chunks_of 32623 (ascii ''PING'') = [ascii ''PING'']"
    by (subst chunks_of.simps) (simp add: ascii_def chunks_of.simps)
  ultimately show ?thesis by (subst chunks_of.simps) (simp add: d)
qed

lemma control_like_data_stalls_witness:
  "unat (get_inbound_received_seq (ep link_ping False)) \<le> 1 \<and> length (chunks link_ping True) = 2"
proof -
  have ch: "chunks link_ping True = [take 32623 (frame ping_data), ascii ''PING'']"
    by (simp add: link_ping_def ping_chunks)
  have few: "few_chunks link_ping"
    unfolding few_chunks_def
    by (rule allI, rule both_sides [of _ True]) (simp_all add: link_ping_def ping_chunks)
  have "message_type (ascii ''PING'') \<noteq> DataMsg"
    by (simp add: message_type_bytes) (simp add: ascii_def of_char_def)
  with control_like_data_stalls [OF sample_wire_laws link_ping_reach few, of 1 True] ch
  show ?thesis by simp
qed

end
