(* ===== verification/Delivery_Progress.thy ===== *)
theory Delivery_Progress
  imports Delivery_Safety
begin

text \<open>
  Progress of the two-sided system of \<open>Delivery\<close>: what each endpoint keeps besides the safety
  invariant (the peer's key, an established status, retry times in the past, no complete write
  left in the buffer), that one send after one resend interval puts everything undelivered on
  the network, and that every run in which it arrives in order delivers it.
\<close>

subsection \<open>What an endpoint keeps\<close>

definition tried_before :: "instant \<Rightarrow> VeilidStream \<Rightarrow> bool" where
  "tried_before now s \<longleftrightarrow> (\<forall>k m t. hm_get k (outbound_message_queue s) = Some m \<longrightarrow>
     last_try_send m = Some t \<longrightarrow> t \<le> now)"

definition established :: "PublicKey \<Rightarrow> instant \<Rightarrow> VeilidStream \<Rightarrow> bool" where
  "established pk now s \<longleftrightarrow>
     remote_public_key s = Some pk \<and> (status s = Active \<or> status s = Listen) \<and>
     tried_before now s \<and> fst (deframe (inbound_buffer s)) = []"

text \<open>Cutting what a cut has left takes nothing more out.\<close>

lemma deframe_loop_rest:
  "deframe_loop b acc = (ex, sl, r) \<Longrightarrow> deframe_loop r [] = (ex, [], r)"
proof (induction b acc rule: deframe_loop.induct)
  case (1 b acc)
  show ?case
  proof (cases "b = [] \<or> length b < 4 \<or> length b < header_len b + 4")
    case True
    with 1(2) have r: "r = b" "ex = (if b = [] then Used_up else if length b < 4 then Short_header else Short_slice)"
      by (subst (asm) deframe_loop.simps, auto simp: Let_def split: if_splits)+
    from True show ?thesis unfolding r
      by (subst deframe_loop.simps) (auto simp: Let_def)
  next
    case False
    then have "deframe_loop b acc = deframe_loop (drop (4 + header_len b) b)
        (acc @ [drop 4 (take (4 + header_len b) b)])"
      by (subst deframe_loop.simps) (auto simp: Let_def)
    with 1(2) 1(1) [OF _ _ refl] False show ?thesis by (simp add: not_less)
  qed
qed

lemma deframe_rest: "deframe b = (sl, r) \<Longrightarrow> deframe r = ([], r)"
  by (auto simp: deframe_def split: prod.splits dest: deframe_loop_rest)

lemma deframe_update_inbound_stream:
  "fst (deframe (inbound_buffer (update_inbound_stream s))) = []"
  unfolding update_inbound_stream_buffer
  by (cases "deframe (inbound_buffer s)") (simp add: deframe_rest)

lemma deframe_framed: "frames_ok ds \<Longrightarrow> deframe (framed ds) = (ds, [])"
  using deframe_loop_framed [of ds "[]" "[]"] by (simp add: deframe_def)

lemma deframe_framed_rest: "frames_ok ds \<Longrightarrow> \<exists>sl r. deframe (framed ds @ b) = (ds @ sl, r)"
  using deframe_loop_framed [of ds b "[]"] deframe_loop_acc [of b]
  by (fastforce simp: deframe_def split: prod.splits)

text \<open>The operations of the link.\<close>

lemma generate_loop_untried:
  "generate_loop b l q = (l', q') \<Longrightarrow> hm_get k q' = Some m \<Longrightarrow>
     last_try_send m = None \<or> hm_get k q = Some m"
proof (induction b arbitrary: l q rule: length_induct)
  case (1 b)
  show ?case
  proof (cases "b = []")
    case False
    then have "length (drop 32623 b) < length b" by simp
    from 1(1) [rule_format, OF this] 1(2,3) show ?thesis
      by (fastforce simp: generate_loop_step [OF False] hm.get_insert split: if_splits)
  qed (use 1 in simp)
qed

lemma established_generate:
  assumes "established pk now s"
  shows "established pk now (generate_messages s)"
proof -
  obtain l q where lq: "generate_loop (outbound_stream s) (outbound_last_seq s)
      (outbound_message_queue s) = (l, q)" by fastforce
  then have "outbound_message_queue (generate_messages s) = q"
    by (simp add: generate_messages_def)
  with generate_loop_untried [OF lq] assms show ?thesis
    by (fastforce simp: established_def tried_before_def)
qed

lemma established_send:
  assumes "established pk now s" and "send_messages x api now s = (r, s')"
  shows "established pk now s'"
  using assms(1)
  by (auto simp: send_messages_frame [OF assms(2)] established_def tried_before_def mark_sent_get
      split: if_splits)

lemma recv_message_buffer:
  "inbound_buffer (recv_message now del k d s) = inbound_buffer s \<or>
     fst (deframe (inbound_buffer (recv_message now del k d s))) = []"
  using deframe_update_inbound_stream
  by (auto simp: recv_message_def Let_def update_inbound_last_timestamp_to_now_def split: prod.splits)

lemma recv_message_outbound:
  "hm_wf (outbound_message_queue s) \<Longrightarrow>
    hm_get j (outbound_message_queue (recv_message now del k d s)) = Some m \<Longrightarrow>
    hm_get j (outbound_message_queue s) = Some m"
  by (auto simp: recv_message_def recv_inbound_buffer_def remove_sent_messages_from_queue_def
      stream_defs Let_def hm.get_retain_Some split: prod.splits if_splits)

lemma established_receive:
  assumes est: "established pk now s" and wf: "hm_wf (outbound_message_queue s)"
  shows "established pk now (link_receive x now' (del, k, sid, a, d, sg) s)"
proof -
  let ?t = "update_status Active s"
  have t: "outbound_message_queue ?t = outbound_message_queue s" "inbound_buffer ?t = inbound_buffer s"
    "remote_public_key ?t = remote_public_key s" "status ?t = Active"
    by (simp_all add: update_status_def)
  have ack: "established pk now (active_status del s)"
    using est wf
    by (auto simp: established_def tried_before_def active_status_def hm.get_retain_Some
        remove_sent_messages_from_queue_def stream_defs Let_def)
  have "tried_before now (recv_message now' del k d ?t)"
    using est recv_message_outbound [of ?t _ now' del k d] wf t(1)
    unfolding established_def tried_before_def by metis
  then have data: "established pk now (recv_message now' del k d ?t)"
    using est recv_message_buffer [of now' del k d ?t] by (auto simp: established_def t)
  from link_receive_cases [of x now' del k sid a d sg s] est ack data show ?thesis by auto
qed

subsection \<open>The invariant\<close>

definition link_established :: "ext \<Rightarrow> link \<Rightarrow> bool" where
  "link_established x s \<longleftrightarrow>
     (\<forall>p. established (public_key x (my_keypair (ep s (\<not> p)))) (link_clock s) (ep s p))"

lemma link_establishedI:
  assumes "established (public_key x (my_keypair (ep s (\<not> q)))) (link_clock s) (ep s q)"
    and "established (public_key x (my_keypair (ep s q))) (link_clock s) (ep s (\<not> q))"
  shows "link_established x s"
  unfolding link_established_def by (rule allI, rule both_sides [of _ q]) (simp_all add: assms)

lemma link_establishedD:
  "link_established x s \<Longrightarrow>
     established (public_key x (my_keypair (ep s (\<not> p)))) (link_clock s) (ep s p)"
  "link_established x s \<Longrightarrow>
     established (public_key x (my_keypair (ep s p))) (link_clock s) (ep s (\<not> p))"
  unfolding link_established_def by (auto dest: spec [of _ p] spec [of _ "\<not> p"])

lemma established_cong:
  assumes "established pk now s" and "remote_public_key s' = remote_public_key s"
    and "status s' = status s" and "outbound_message_queue s' = outbound_message_queue s"
    and "inbound_buffer s' = inbound_buffer s"
  shows "established pk now s'"
  using assms by (simp add: established_def tried_before_def)

lemma established_later: "established pk now s \<Longrightarrow> now \<le> now' \<Longrightarrow> established pk now' s"
  unfolding established_def tried_before_def by (meson order_trans)

text \<open>A step of side \<open>q\<close> that keeps its own endpoint established and its key.\<close>

lemma link_established_update:
  assumes "link_established x s" and "established (public_key x (my_keypair (ep s (\<not> q)))) (link_clock s) e"
    and "my_keypair e = my_keypair (ep s q)"
    and "ep t = (ep s)(q := e)" "link_clock t = link_clock s"
  shows "link_established x t"
  using assms link_establishedD(2) [OF assms(1), of q] by (intro link_establishedI [of _ _ q]) simp_all

lemma poll_read_keys:
  "poll_read now wk n s = (r, s') \<Longrightarrow>
     remote_public_key s' = remote_public_key s \<and> my_keypair s' = my_keypair s"
  by (auto simp: poll_read_def read_inbound_stream_def Let_def split: if_splits)

lemma link_established_step:
  assumes "link_step x s t" "link_ok x s" "link_established x s"
  shows "link_established x t"
  using assms
proof (induction rule: link_step.induct)
  case (tick s t)
  then show ?case by (auto simp: link_established_def intro: established_later)
next
  case (app_write s d p n e sp)
  note e = poll_write_frame [OF app_write(1)]
  show ?case
    by (rule link_established_update [OF app_write(3), of p e])
      (simp_all add: e established_cong [OF link_establishedD(1) [OF app_write(3), of p]])
next
  case (generate e s p)
  show ?case
    by (rule link_established_update [OF generate(3), of p e])
      (simp_all add: generate(1) established_generate [OF link_establishedD(1) [OF generate(3)]])
next
  case (send api s p calls e)
  have "my_keypair e = my_keypair (ep s p)" by (simp add: send_messages_frame [OF send(1)])
  with established_send [OF link_establishedD(1) [OF send(3)] send(1)] show ?case
    by (intro link_established_update [OF send(3), of p e]) simp_all
next
  case (keepalive api s p calls)
  then show ?case by (simp add: link_established_def)
next
  case (deliver w s p pkt e)
  obtain del k sid a d sg where pkt: "pkt = (del, k, sid, a, d, sg)" by (cases pkt) auto
  have "hm_wf (outbound_message_queue (ep s p))"
    using link_okD [OF deliver(4), of p] by (simp add: dir_ok_def sender_ok_def outbound_queue_wf_def)
  from established_receive [OF link_establishedD(1) [OF deliver(5)] this] show ?case
    by (intro link_established_update [OF deliver(5), of p e])
      (simp_all add: deliver(3) pkt link_receive_keys)
next
  case (app_read s wk n p r e)
  show ?case
    by (rule link_established_update [OF app_read(3), of p e])
      (simp_all add: poll_read_keys [OF app_read(1)]
        established_cong [OF link_establishedD(1) [OF app_read(3), of p]] poll_read_frame [OF app_read(1)])
qed

lemma link_reach_established:
  assumes "wire_laws x"
  shows "link_reach x s \<Longrightarrow> few_chunks s \<Longrightarrow> link_established x s"
proof (induction rule: link_reach.induct)
  case (init s)
  then show ?case
    by (simp add: link_established_def established_def tried_before_def link_init_def
        fresh_stream_def deframe_def)
next
  case (step s t)
  then show ?case
    using link_established_step [OF step(2)] link_reach_ok [OF assms step(1)] few_chunks_step by blast
qed

subsection \<open>Progress\<close>

text \<open>The next chunk moves the cursor of a live receiver.\<close>

lemma recv_message_advances:
  assumes ok: "receiver_ok rv cs" and len: "length cs < 4294967295"
    and c: "unat (get_inbound_received_seq rv) < length cs"
    and k: "k = get_inbound_received_seq rv + 1" and d: "d = cs ! unat (get_inbound_received_seq rv)"
    and act: "is_active now rv"
  shows "unat (get_inbound_received_seq rv) < unat (get_inbound_received_seq (recv_message now del k d rv))"
    and "inbound_last_timestamp (recv_message now del k d rv) = now"
proof -
  let ?c = "get_inbound_received_seq rv"
  have c1: "unat (?c + 1) = unat ?c + 1"
    using c len by (simp add: unat_word_ariths)
  then have nxt: "\<not> k \<le> ?c" "\<not> k > ?c + 1" by (simp_all add: k word_le_nat_alt)
  have q: "queue_of_chunks cs (inbound_message_queue rv)" using ok by (simp add: receiver_ok_def)
  have "?c + 1 = of_nat (Suc (unat ?c))" using c1 by (metis Suc_eq_plus1 u32_of_nat_unat)
  with drain_queue_chunks [OF q len Suc_leI [OF c], of "inbound_buffer rv @ d"] obtain m q' r where
    m: "Suc (unat ?c) \<le> m" "m \<le> length cs"
      "drain_queue (?c + 1) (inbound_message_queue rv) (inbound_buffer rv @ d) = (of_nat m, q', r)"
    by auto
  have um: "unat (of_nat m :: u32) = m" using m(2) len by simp
  have "get_inbound_received_seq (recv_message now del k d rv) = of_nat m"
    "inbound_last_timestamp (recv_message now del k d rv) = now"
    unfolding recv_message_next [OF nxt act m(3)]
    by (simp_all add: stream_defs remove_sent_messages_from_queue_def)
  then show "unat ?c < unat (get_inbound_received_seq (recv_message now del k d rv))"
    and "inbound_last_timestamp (recv_message now del k d rv) = now"
    using m(1) um by simp_all
qed

text \<open>A network on which every chunk past the receiver's cursor waits, signed by the sender.\<close>

definition on_the_way :: "ext \<Rightarrow> PublicKey \<Rightarrow> bytes set \<Rightarrow> nat \<Rightarrow> bytes list \<Rightarrow> bool" where
  "on_the_way x pk nt c cs \<longleftrightarrow> (\<forall>n. c \<le> n \<and> n < length cs \<longrightarrow>
     (\<exists>w \<in> nt. \<exists>del sid a sg. decode_message x w = Return (Inr (del, of_nat n + 1, sid, a, cs ! n, sg)) \<and>
        verify_signature x (Some pk) (cs ! n) sg))"

lemma on_the_way_mono: "on_the_way x pk nt c cs \<Longrightarrow> c \<le> c' \<Longrightarrow> on_the_way x pk nt c' cs"
  unfolding on_the_way_def by (meson order_trans)

lemma on_the_way_Un: "on_the_way x pk nt c cs \<Longrightarrow> on_the_way x pk (nt' \<union> nt) c cs"
  unfolding on_the_way_def by blast

text \<open>
  \<open>in_order x q s k n t\<close>: a run from \<open>s\<close> to \<open>t\<close> in which the data messages numbered \<open>k + 1\<close> to
  \<open>n\<close>, signed, reach side \<open>q\<close> in this order, amid any other steps of the two nodes and the
  network, old, repeated and later messages included, as long as \<open>q\<close> counts as live.
\<close>

inductive in_order :: "ext \<Rightarrow> bool \<Rightarrow> link \<Rightarrow> nat \<Rightarrow> nat \<Rightarrow> link \<Rightarrow> bool"
  for x :: ext and q :: bool and s :: link and k :: nat where
  start: "in_order x q s k k s"
| other: "in_order x q s k n t \<Longrightarrow> link_step x t u \<Longrightarrow> heard_recently (link_clock u) (ep u q) \<Longrightarrow>
    in_order x q s k n u"
| arrive: "in_order x q s k n t \<Longrightarrow> w \<in> net t (\<not> q) \<Longrightarrow>
    decode_message x w = Return (Inr (del, of_nat n + 1, sid, a, d, sg)) \<Longrightarrow>
    message_type d = DataMsg \<Longrightarrow> verify_signature x (remote_public_key (ep t q)) d sg \<Longrightarrow>
    e = link_receive x (link_clock t) (del, of_nat n + 1, sid, a, d, sg) (ep t q) \<Longrightarrow>
    in_order x q s k (Suc n) (t\<lparr>ep := (ep t)(q := e)\<rparr>)"

lemma in_order_reach: "in_order x q s k n t \<Longrightarrow> link_reach x s \<Longrightarrow> link_reach x t"
  by (induction rule: in_order.induct) (auto intro: link_reach.step link_step.deliver)

lemma link_step_history:
  "link_step x s t \<Longrightarrow> prefix (written s p) (written t p) \<and> prefix (chunks s p) (chunks t p)"
  by (induction rule: link_step.induct) auto

lemma in_order_history:
  "in_order x q s k n t \<Longrightarrow> prefix (written s p) (written t p) \<and> prefix (chunks s p) (chunks t p)"
proof (induction rule: in_order.induct)
  case (other n t u)
  then show ?case using link_step_history by (meson prefix_order.trans)
qed auto

text \<open>A receiver's cursor does not go back, and what it receives does not make it less live.\<close>

lemma link_step_cursor:
  assumes "link_step x s t" and "link_ok x s" and "few_chunks t"
  shows "unat (get_inbound_received_seq (ep s q)) \<le> unat (get_inbound_received_seq (ep t q))"
  using assms(1)
proof (cases rule: link_step.cases)
  case (app_write d p n e sp)
  then show ?thesis by (simp add: poll_write_frame [OF app_write(2)] get_inbound_received_seq_def)
next
  case (send api p calls e)
  then show ?thesis by (simp add: send_messages_frame [OF send(2)] get_inbound_received_seq_def)
next
  case (generate e p)
  then show ?thesis by (simp add: get_inbound_received_seq_def)
next
  case (deliver w p pkt e)
  obtain del k sid a d sg where pkt: "pkt = (del, k, sid, a, d, sg)"
    and d: "carries (chunks s (\<not> p)) k d"
    using link_okD2 [OF assms(2), of p] deliver(2,3) unfolding dir_ok_def net_ok_def by fastforce
  have "receiver_ok (ep s p) (chunks s (\<not> p))" "length (chunks s (\<not> p)) < 4294967295"
    using link_okD2 [OF assms(2), of p] assms(3) deliver(1) by (simp_all add: dir_ok_def few_chunks_def)
  from link_receive_receiver(2) [OF this d] show ?thesis by (simp add: deliver(1,4) pkt)
next
  case (app_read wk n p r e)
  then show ?thesis by (simp add: poll_read_frame(1) [OF app_read(2)])
qed simp_all

lemma link_receive_heard:
  "heard_recently now s \<Longrightarrow> heard_recently now (link_receive x now pkt s)"
proof -
  assume heard: "heard_recently now s"
  obtain del k sid a d sg where pkt: "pkt = (del, k, sid, a, d, sg)" by (cases pkt) auto
  have recv: "inbound_last_timestamp (recv_message now del k d t) \<in> {inbound_last_timestamp t, now}" for t
    by (auto simp: recv_message_def Let_def update_inbound_last_timestamp_to_now_def split: prod.splits)
  have ack: "inbound_last_timestamp (active_status del s) = inbound_last_timestamp s"
    by (simp add: active_status_def remove_sent_messages_from_queue_def stream_defs Let_def)
  from link_receive_cases [of x now del k sid a d sg s] recv [of "update_status Active s"] ack heard
  show "heard_recently now (link_receive x now pkt s)"
    by (auto simp: pkt heard_recently_def update_status_def secs_def)
qed

text \<open>The arrival of message \<open>n + 1\<close> takes a live receiver whose cursor is \<open>n\<close> or more past it.\<close>

lemma arrival_advances:
  assumes laws: "wire_laws x" and reach: "link_reach x t" and few: "few_chunks t"
    and w: "w \<in> net t (\<not> q)" "decode_message x w = Return (Inr (del, of_nat n + 1, sid, a, d, sg))"
    and data: "message_type d = DataMsg" "verify_signature x (remote_public_key (ep t q)) d sg"
    and live: "heard_recently (link_clock t) (ep t q)"
    and n: "n \<le> unat (get_inbound_received_seq (ep t q))"
    and e: "e = link_receive x (link_clock t) (del, of_nat n + 1, sid, a, d, sg) (ep t q)"
  shows "Suc n \<le> unat (get_inbound_received_seq e)"
proof -
  let ?c = "get_inbound_received_seq (ep t q)" and ?cs = "chunks t (\<not> q)"
  let ?u = "update_status Active (ep t q)"
  note dir = link_okD2 [OF link_reach_ok [OF laws reach few], of q]
  have len: "length ?cs < 4294967295" using few by (simp add: few_chunks_def)
  have rv: "receiver_ok (ep t q) ?cs" using dir by (simp add: dir_ok_def)
  then have c: "unat ?c \<le> length ?cs" by (simp add: receiver_ok_def)
  have carr: "carries ?cs (of_nat n + 1) d"
    using dir w unfolding dir_ok_def net_ok_def by fastforce
  have k: "unat (of_nat n + 1 :: u32) = Suc n"
    using n c len by (simp add: u32_of_nat_Suc del: of_nat_Suc)
  have nd: "n < length ?cs" "d = ?cs ! n"
    using carr data(1) by (auto simp: carries_def k status_text_type)
  show ?thesis
  proof (cases "unat ?c = n")
    case False
    with n link_receive_receiver(2) [OF rv len carr, of x "link_clock t" del sid a sg]
    show ?thesis unfolding e by linarith
  next
    case True
    then have kc: "of_nat n + 1 = ?c + 1" by auto
    have u: "receiver_ok ?u ?cs" "get_inbound_received_seq ?u = ?c" "is_active (link_clock t) ?u"
      using rv live by (simp_all add: receiver_ok_def stream_defs is_active_def heard_recently_def)
    have "status (ep t q) = Active \<or> status (ep t q) = Listen"
      using link_establishedD(1) [OF link_reach_established [OF laws reach few], of q]
      by (simp add: established_def)
    then have "e = recv_message (link_clock t) del (?c + 1) (?cs ! unat ?c) ?u"
      using data nd(2) True unfolding e kc by (auto simp: link_receive_def active_data_def)
    then show ?thesis
      using recv_message_advances(1) [OF u(1) len _ _ _ u(3), of "?c + 1" "?cs ! unat ?c" del] nd(1) True u(2)
      by simp
  qed
qed

lemma in_order_delivers:
  assumes laws: "wire_laws x" and "in_order x q s k n t" and "link_reach x s" and "few_chunks t"
    and "heard_recently (link_clock s) (ep s q)" and "k \<le> unat (get_inbound_received_seq (ep s q))"
  shows "n \<le> unat (get_inbound_received_seq (ep t q)) \<and> heard_recently (link_clock t) (ep t q)"
  using assms(2-)
proof (induction rule: in_order.induct)
  case start
  then show ?case by simp
next
  case (other n t u)
  have few: "few_chunks t" by (rule few_chunks_step [OF other(2,6)])
  with other.IH other(5,7,8) have "n \<le> unat (get_inbound_received_seq (ep t q))" by blast
  also have "\<dots> \<le> unat (get_inbound_received_seq (ep u q))"
    by (rule link_step_cursor [OF other(2) link_reach_ok [OF laws in_order_reach [OF other(1,5)] few] other(6)])
  finally show ?case using other(3) by simp
next
  case (arrive n t w del sid a d sg e)
  have few: "few_chunks t" using arrive(9) by (simp add: few_chunks_def)
  with arrive.IH arrive have n: "n \<le> unat (get_inbound_received_seq (ep t q))"
    and live: "heard_recently (link_clock t) (ep t q)" by blast+
  have "Suc n \<le> unat (get_inbound_received_seq e)"
    by (rule arrival_advances [OF laws in_order_reach [OF arrive(1,8)] few arrive(2-5) live n arrive(6)])
  with link_receive_heard [OF live] arrive(6) show ?case by simp
qed

text \<open>Messages that are all on the way can arrive in order.\<close>

lemma in_order_exists:
  assumes laws: "wire_laws x" and reach: "link_reach x s" and few: "few_chunks s"
    and way: "on_the_way x (public_key x (my_keypair (ep s (\<not> q)))) (net s (\<not> q)) k (chunks s (\<not> q))"
    and typed: "\<forall>d \<in> set (chunks s (\<not> q)). message_type d = DataMsg"
  shows "k + i \<le> length (chunks s (\<not> q)) \<Longrightarrow> \<exists>t. in_order x q s k (k + i) t \<and>
    net t = net s \<and> chunks t = chunks s \<and> ep t (\<not> q) = ep s (\<not> q)"
proof (induction i)
  case 0
  then show ?case using in_order.start by fastforce
next
  case (Suc i)
  then obtain t where t: "in_order x q s k (k + i) t" "net t = net s" "chunks t = chunks s"
    "ep t (\<not> q) = ep s (\<not> q)" by auto
  obtain w del sid a sg where w: "w \<in> net s (\<not> q)"
    "decode_message x w = Return (Inr (del, of_nat (k + i) + 1, sid, a, chunks s (\<not> q) ! (k + i), sg))"
    "verify_signature x (Some (public_key x (my_keypair (ep s (\<not> q))))) (chunks s (\<not> q) ! (k + i)) sg"
    using way [unfolded on_the_way_def, rule_format, of "k + i"] Suc.prems by auto
  have "few_chunks t" using few t(3) by (simp add: few_chunks_def)
  from link_establishedD(1) [OF link_reach_established [OF laws in_order_reach [OF t(1) reach] this], of q]
  have pk: "remote_public_key (ep t q) = Some (public_key x (my_keypair (ep s (\<not> q))))"
    by (simp add: established_def t(4))
  have "message_type (chunks s (\<not> q) ! (k + i)) = DataMsg" using typed Suc.prems by simp
  from in_order.arrive [OF t(1) _ w(2) this _ refl] w(1,3) pk t(2-4) show ?case by fastforce
qed

text \<open>One retry interval later, one send puts every undelivered chunk on the network.\<close>

lemma send_puts_on_the_way:
  assumes laws: "wire_laws x" and addr: "vld0_address (local_address tx)"
    and ok: "sender_ok tx c ws cs" and few: "length cs < 4294967295"
    and tried: "tried_before now tx" and up: "routing_context api" "with_safety api"
  shows "\<exists>calls tx'. send_messages x api (now + secs 5) tx = (Return calls, tx') \<and>
    on_the_way x (public_key x (my_keypair tx)) (wire_of calls) c cs"
proof -
  let ?now = "now + secs 5"
  let ?ms = "messages_to_send ?now tx"
  let ?s = "tx\<lparr>outbound_message_queue := mark_sent ?now ?ms (outbound_message_queue tx)\<rparr>"
  have wf: "outbound_queue_wf (outbound_message_queue tx)" using ok by (simp add: sender_ok_def)
  have ma: "multiaddr_law x" using laws by (simp add: wire_laws_def)
  obtain calls tx' where sm: "send_messages x api ?now tx = (Return calls, tx')"
    using send_messages_no_panic [OF ma wf, of api ?now]
    by (cases "send_messages x api ?now tx"; cases "fst (send_messages x api ?now tx)") auto
  then have "send_each x api ?s ?ms = Return calls" by (auto simp: send_messages_def Let_def)
  from sent_in_order [OF this up] obtain bs where bs: "length bs = length ?ms" "length calls = length ?ms"
    "\<forall>i < length ?ms. encode_message x (get_inbound_received_seq tx) (seq (?ms ! i)) (my_stream_id tx)
        (local_address tx) (data (?ms ! i)) (my_keypair tx) = Return (bs ! i) \<and>
      (\<exists>sf. calls ! i = AppMessage sf (remote_target tx) (bs ! i))"
    by (auto simp: get_inbound_received_seq_def)
  have "\<exists>w \<in> wire_of calls. \<exists>del sid a sg.
      decode_message x w = Return (Inr (del, of_nat n + 1, sid, a, cs ! n, sg)) \<and>
      verify_signature x (Some (public_key x (my_keypair tx))) (cs ! n) sg"
    if n: "c \<le> n" "n < length cs" for n
  proof -
    let ?k = "of_nat n + 1 :: u32"
    have k: "unat ?k = Suc n" using n few by (simp add: u32_of_nat_Suc del: of_nat_Suc)
    have "c < unat ?k \<and> unat ?k \<le> length cs" using n k by simp
    then obtain m where m: "hm_get ?k (outbound_message_queue tx) = Some m"
      using ok unfolding sender_ok_def by blast
    then have d: "data m = cs ! n" and sq: "seq m = ?k"
      using ok wf k unfolding sender_ok_def outbound_queue_wf_def by fastforce+
    have "due ?now m"
      using tried m by (auto simp: due_iff tried_before_def split: option.split)
    then have "m \<in> set ?ms" using m sq by (simp add: messages_to_send_iff [OF wf])
    then obtain i where i: "i < length ?ms" "?ms ! i = m" by (metis in_set_conv_nth)
    then obtain sf where enc: "encode_message x (get_inbound_received_seq tx) ?k (my_stream_id tx)
        (local_address tx) (cs ! n) (my_keypair tx) = Return (bs ! i)"
      and call: "calls ! i = AppMessage sf (remote_target tx) (bs ! i)"
      using bs(3) d sq by metis
    have "bs ! i \<in> wire_of calls"
      using call i(1) bs(2) unfolding wire_of_def by (metis (mono_tags) mem_Collect_eq nth_mem)
    with wire_decodes [OF laws addr enc] show ?thesis by blast
  qed
  then show ?thesis unfolding on_the_way_def using sm by blast
qed

text \<open>
  A receiver that has all chunks of whole writes, with a cut buffer, has all these writes; the
  sender may have gone on in the meantime.
\<close>

lemma all_delivered:
  assumes del: "delivered_ok rv ws' cs' con" and ws: "prefix ws ws'" "frames_ok ws'"
    and cs: "prefix cs cs'" "framed ws = concat cs" "length cs \<le> unat (get_inbound_received_seq rv)"
    and cut: "fst (deframe (inbound_buffer rv)) = []"
  shows "prefix (concat ws) (con @ inbound_stream rv)"
proof -
  let ?c = "unat (get_inbound_received_seq rv)"
  obtain more z where more: "ws' = ws @ more" and z: "cs' = cs @ z"
    using ws(1) cs(1) by (auto simp: prefix_def)
  obtain j where j: "j \<le> length ws'" "concat (take ?c cs') = framed (take j ws') @ inbound_buffer rv"
    "con @ inbound_stream rv = concat (take j ws')"
    using del by (auto simp: delivered_ok_def)
  have "take ?c cs' = cs @ take (?c - length cs) z" using cs(3) by (simp add: z)
  then have all: "framed ws @ concat (take (?c - length cs) z) = framed (take j ws') @ inbound_buffer rv"
    using j(2) cs(2) by simp
  have "length ws \<le> j"
  proof (rule ccontr)
    assume "\<not> length ws \<le> j"
    then have "drop j ws \<noteq> []" and "take j ws' = take j ws" by (simp_all add: more)
    moreover have "framed ws = framed (take j ws) @ framed (drop j ws)"
      by (metis append_take_drop_id framed_simps(3))
    ultimately have "inbound_buffer rv = framed (drop j ws) @ concat (take (?c - length cs) z)"
      using all by simp
    moreover have "frames_ok (drop j ws)"
      using ws(2) frames_ok_drop frames_ok_take [OF ws(2), of "length ws"] by (simp add: more)
    ultimately show False
      using cut deframe_framed_rest [of "drop j ws" "concat (take (?c - length cs) z)"]
        \<open>drop j ws \<noteq> []\<close> by auto
  qed
  then have "take j ws' = ws @ take (j - length ws) more" by (simp add: more)
  then show ?thesis by (simp add: j(3))
qed



end
