(* ===== verification/Delivery_Refinement.thy ===== *)
theory Delivery_Refinement
  imports Delivery_Safety
begin

text \<open>
  The two-sided system of \<open>Delivery\<close> refines a pair of byte pipes. Steps are labelled with what
  the users of the two connections see of them: a write accepted, bytes read, a read that has
  to wait; everything else is \<open>Silent\<close>. The interface is a forward simulation of labelled steps,
  interpreted on the link for runs that stay within the limits of the code's framing and
  numbering, and gives that every sequence of labels of the code is one of the pipes.
\<close>

subsection \<open>Forward simulation\<close>

inductive traces :: "('s \<Rightarrow> 'e \<Rightarrow> 's \<Rightarrow> bool) \<Rightarrow> 's \<Rightarrow> 'e list \<Rightarrow> 's \<Rightarrow> bool"
  for does :: "'s \<Rightarrow> 'e \<Rightarrow> 's \<Rightarrow> bool" where
  start: "traces does s [] s"
| snoc: "traces does s es t \<Longrightarrow> does t e u \<Longrightarrow> traces does s (es @ [e]) u"

locale forward_simulation =
  fixes cstep :: "'c \<Rightarrow> 'e \<Rightarrow> 'c \<Rightarrow> bool"
    and astep :: "'a \<Rightarrow> 'e \<Rightarrow> 'a \<Rightarrow> bool"
    and inv :: "'c \<Rightarrow> bool"
    and abst :: "'c \<Rightarrow> 'a"
  assumes inv_step: "inv s \<Longrightarrow> cstep s e t \<Longrightarrow> inv t"
    and step_refines: "inv s \<Longrightarrow> cstep s e t \<Longrightarrow> astep (abst s) e (abst t)"
begin

lemma traces_refine:
  assumes "traces cstep s es t" and "inv s"
  shows "inv t \<and> traces astep (abst s) es (abst t)"
  using assms
proof (induction rule: traces.induct)
  case (start s)
  then show ?case by (simp add: traces.start)
next
  case (snoc s es t e u)
  then have t: "inv t" "traces astep (abst s) es (abst t)" by simp_all
  from traces.snoc [OF t(2) step_refines [OF t(1) snoc(2)]] inv_step [OF t(1) snoc(2)]
  show ?case by simp
qed

end

subsection \<open>The abstract pipes\<close>

text \<open>
  Per direction: the writes accepted, the bytes that have arrived and wait to be read, and the
  bytes read. Bytes arrive only up to the end of a write, in the order written. A read of at
  most \<open>n\<close> bytes gets the first ones that wait, and has to wait itself only if there are none.
\<close>

record pipe =
  p_written :: "bool \<Rightarrow> bytes list"
  p_waiting :: "bool \<Rightarrow> bytes"
  p_read :: "bool \<Rightarrow> bytes"

datatype pipe_event = Put bool bytes | Get bool nat bytes | Blocked bool | Silent

inductive pipe_step :: "pipe \<Rightarrow> pipe_event \<Rightarrow> pipe \<Rightarrow> bool" where
  put: "pipe_step a (Put p d) (a\<lparr>p_written := (p_written a)(p := p_written a p @ [d])\<rparr>)"
| get: "p_waiting a p \<noteq> [] \<Longrightarrow> pipe_step a (Get p n (take n (p_waiting a p)))
    (a\<lparr>p_waiting := (p_waiting a)(p := drop n (p_waiting a p)),
       p_read := (p_read a)(p := p_read a p @ take n (p_waiting a p))\<rparr>)"
| blocked: "p_waiting a p = [] \<Longrightarrow> pipe_step a (Blocked p) a"
| arrive: "j \<le> length (p_written a (\<not> p)) \<Longrightarrow>
    p_read a p @ p_waiting a p @ new = concat (take j (p_written a (\<not> p))) \<Longrightarrow>
    pipe_step a Silent (a\<lparr>p_waiting := (p_waiting a)(p := p_waiting a p @ new)\<rparr>)"
| idle: "pipe_step a Silent a"

definition pipe_of :: "link \<Rightarrow> pipe" where
  "pipe_of s = \<lparr>p_written = written s, p_waiting = (\<lambda>p. inbound_stream (ep s p)),
     p_read = consumed s\<rparr>"

subsection \<open>The refinement\<close>

text \<open>The limits: enough sequence numbers, writes that fit a header, no boundary in a header.\<close>

definition within_limits :: "link \<Rightarrow> bool" where
  "within_limits s \<longleftrightarrow>
     few_chunks s \<and> (\<forall>p. frames_ok (written s p) \<and> aligned (chunks s p))"

text \<open>The labelled steps of the two nodes: those of \<open>link_step\<close>, with what a user sees of them.\<close>

inductive link_does :: "ext \<Rightarrow> link \<Rightarrow> pipe_event \<Rightarrow> link \<Rightarrow> bool" for x :: ext where
  wrote: "poll_write (link_clock s) d (ep s p) = (Ready (Inr n), e, sp) \<Longrightarrow>
    link_does x s (Put p d)
      (s\<lparr>ep := (ep s)(p := e), written := (written s)(p := written s p @ [d])\<rparr>)"
| got: "poll_read (link_clock s) wk n (ep s p) = (Ready (Inr d), e) \<Longrightarrow>
    link_does x s (Get p n d)
      (s\<lparr>ep := (ep s)(p := e), consumed := (consumed s)(p := consumed s p @ d)\<rparr>)"
| waits: "poll_read (link_clock s) wk n (ep s p) = (Pending, e) \<Longrightarrow>
    link_does x s (Blocked p) (s\<lparr>ep := (ep s)(p := e)\<rparr>)"
| silent: "link_step x s t \<Longrightarrow> written t = written s \<Longrightarrow> consumed t = consumed s \<Longrightarrow>
    link_does x s Silent t"

lemma link_step_does: "link_step x s t \<longleftrightarrow> (\<exists>ev. link_does x s ev t)"
proof
  assume st: "link_step x s t"
  then show "\<exists>ev. link_does x s ev t"
  proof (cases rule: link_step.cases)
    case (app_write d p n e sp)
    then show ?thesis using link_does.wrote by blast
  next
    case (app_read wk n p r e)
    consider (bytes) d where "r = Ready (Inr d)" | (pend) "r = Pending" | (err) m where "r = Ready (Inl m)"
      by (cases r) (auto split: sum.splits, metis sum.exhaust)
    then show ?thesis
    proof cases
      case (bytes d)
      with app_read link_does.got [of s wk n p d e x] show ?thesis by auto
    next
      case pend
      then have "t = s\<lparr>ep := (ep s)(p := e)\<rparr>" using app_read(1) by simp
      with app_read(2) pend link_does.waits [of s wk n p e x] show ?thesis by auto
    next
      case (err m)
      then have "written t = written s" "consumed t = consumed s" using app_read(1) by simp_all
      with st show ?thesis using link_does.silent by blast
    qed
  qed (use st in \<open>auto intro!: exI [of _ Silent] link_does.silent\<close>)
next
  assume "\<exists>ev. link_does x s ev t"
  then obtain ev where "link_does x s ev t" by blast
  then show "link_step x s t"
  proof (cases rule: link_does.cases)
    case (wrote d p n e sp)
    then show ?thesis using link_step.app_write by blast
  next
    case (got wk n p d e)
    then show ?thesis using link_step.app_read [OF got(3)] by simp
  next
    case (waits wk n p e)
    then show ?thesis using link_step.app_read [OF waits(3)] by simp
  qed
qed

definition limited_does :: "ext \<Rightarrow> link \<Rightarrow> pipe_event \<Rightarrow> link \<Rightarrow> bool" where
  "limited_does x s ev t \<longleftrightarrow> link_does x s ev t \<and> within_limits t"

definition limited :: "ext \<Rightarrow> link \<Rightarrow> bool" where
  "limited x s \<longleftrightarrow> wire_laws x \<and> link_reach x s \<and> within_limits s"

lemma limited_delivered:
  "limited x s \<Longrightarrow> delivered_ok (ep s (\<not> p)) (written s p) (chunks s p) (consumed s (\<not> p))"
  using link_okD [OF link_reach_ok, of x s p] by (simp add: limited_def within_limits_def dir_ok_def)

lemma update_inbound_stream_appends:
  "\<exists>new. inbound_stream (update_inbound_stream t) = inbound_stream t @ new"
  by (cases "fst (deframe_loop (inbound_buffer t) []) = Short_header")
    (auto simp: update_inbound_stream_stream)

lemma recv_message_appends:
  "\<exists>new. inbound_stream (recv_message now del k d s) = inbound_stream s @ new"
proof -
  let ?c = "get_inbound_received_seq s"
  consider (same) "recv_message now del k d s = s"
    | (early) "recv_message now del k d s =
        s\<lparr>inbound_message_queue := hm_insert k d (inbound_message_queue s)\<rparr>"
    | (nxt) "\<not> k \<le> ?c" "\<not> k > ?c + 1" "is_active now s"
    by (metis recv_message_duplicate recv_message_early recv_message_next_inactive)
  then show ?thesis
  proof cases
    case nxt
    obtain f q b where dr: "drain_queue (?c + 1) (inbound_message_queue s) (inbound_buffer s @ d) = (f, q, b)"
      by (metis prod_cases3)
    let ?t = "remove_sent_messages_from_queue (update_outbound_delivered_seq del
      (update_inbound_received_seq f (s\<lparr>inbound_message_queue := q, inbound_buffer := b\<rparr>)))"
    have "inbound_stream ?t = inbound_stream s"
      by (simp add: stream_defs remove_sent_messages_from_queue_def)
    then show ?thesis
      using update_inbound_stream_appends [of ?t]
      unfolding recv_message_next [OF nxt dr] by (simp add: update_inbound_last_timestamp_to_now_def)
  qed simp_all
qed

lemma link_receive_appends:
  "\<exists>new. inbound_stream (link_receive x now pkt s) = inbound_stream s @ new"
proof -
  obtain del k sid a d sg where pkt: "pkt = (del, k, sid, a, d, sg)" by (cases pkt) auto
  have "inbound_stream (update_status Active s) = inbound_stream s" by (simp add: update_status_def)
  with link_receive_cases [of x now del k sid a d sg s]
    recv_message_appends [of now del k d "update_status Active s"]
  show ?thesis unfolding pkt by auto
qed

lemma pipe_of_same:
  "written t = written s \<Longrightarrow> consumed t = consumed s \<Longrightarrow>
    (\<And>p. inbound_stream (ep t p) = inbound_stream (ep s p)) \<Longrightarrow> pipe_of t = pipe_of s"
  by (simp add: pipe_of_def)

lemma deliver_refines:
  assumes lim': "limited x t" and t: "t = s\<lparr>ep := (ep s)(p := e)\<rparr>"
    and e: "e = link_receive x now pkt (ep s p)"
  shows "pipe_step (pipe_of s) Silent (pipe_of t)"
proof -
  obtain new where new: "inbound_stream e = inbound_stream (ep s p) @ new"
    using link_receive_appends e by blast
  obtain j where j: "j \<le> length (written t (\<not> p))"
    "consumed t p @ inbound_stream (ep t p) = concat (take j (written t (\<not> p)))"
    using limited_delivered [OF lim', of "\<not> p"] by (auto simp: delivered_ok_def)
  have "pipe_of t = (pipe_of s)\<lparr>p_waiting := (p_waiting (pipe_of s))(p := p_waiting (pipe_of s) p @ new)\<rparr>"
    unfolding t pipe_of_def by (auto simp: new)
  moreover have "j \<le> length (p_written (pipe_of s) (\<not> p)) \<and>
      p_read (pipe_of s) p @ p_waiting (pipe_of s) p @ new = concat (take j (p_written (pipe_of s) (\<not> p)))"
    using j new by (simp add: pipe_of_def t)
  ultimately show ?thesis by (metis pipe_step.arrive)
qed

lemma silent_refines:
  assumes st: "link_step x s t" and same: "written t = written s" "consumed t = consumed s"
    and lim': "limited x t"
  shows "pipe_step (pipe_of s) Silent (pipe_of t)"
proof -
  have idle: "pipe_of t = pipe_of s \<Longrightarrow> ?thesis" by (simp add: pipe_step.idle)
  from st show ?thesis
  proof (cases rule: link_step.cases)
    case (app_write d p n e sp)
    then have "written t p \<noteq> written s p" by simp
    with same(1) show ?thesis by simp
  next
    case (deliver w p pkt e)
    then show ?thesis using deliver_refines [OF lim'] by blast
  next
    case (app_read wk n p r e)
    have "consumed t p = consumed s p" using same(2) by simp
    then have "inbound_stream e = inbound_stream (ep s p)"
      using poll_read_frame(4) [OF app_read(2)] app_read(1) by simp
    then have "pipe_of t = pipe_of s" by (intro pipe_of_same same) (auto simp: app_read(1))
    then show ?thesis by (rule idle)
  next
    case (send api p calls e)
    then have "pipe_of t = pipe_of s" by (intro pipe_of_same) (auto dest: send_messages_frame)
    then show ?thesis by (rule idle)
  next
    case (generate e p)
    then have "pipe_of t = pipe_of s" by (intro pipe_of_same) auto
    then show ?thesis by (rule idle)
  qed (simp_all add: idle pipe_of_def pipe_step.idle)
qed

lemma link_refines:
  assumes st: "link_does x s ev t" and lim': "limited x t"
  shows "pipe_step (pipe_of s) ev (pipe_of t)"
  using st
proof (cases rule: link_does.cases)
  case (wrote d p n e sp)
  have "inbound_stream e = inbound_stream (ep s p)" by (simp add: poll_write_frame [OF wrote(3)])
  then have "pipe_of t = (pipe_of s)\<lparr>p_written := (p_written (pipe_of s))(p := p_written (pipe_of s) p @ [d])\<rparr>"
    unfolding wrote(2) pipe_of_def by auto
  then show ?thesis unfolding wrote(1) by (metis pipe_step.put)
next
  case (got wk n p d e)
  let ?w = "p_waiting (pipe_of s) p"
  have w: "?w = inbound_stream (ep s p)" by (simp add: pipe_of_def)
  have d: "?w \<noteq> []" "d = take n ?w" "inbound_stream e = drop n ?w"
    using got(3) unfolding w poll_read_def read_inbound_stream_def
    by (auto simp: Let_def min_def split: if_splits)
  have "pipe_of t = (pipe_of s)\<lparr>p_waiting := (p_waiting (pipe_of s))(p := drop n ?w),
      p_read := (p_read (pipe_of s))(p := p_read (pipe_of s) p @ take n ?w)\<rparr>"
    unfolding got(2) pipe_of_def using d(2,3) by (auto simp: pipe_of_def)
  then show ?thesis using pipe_step.get [of "pipe_of s" p n, OF d(1)] got(1) d(2) by simp
next
  case (waits wk n p e)
  have "inbound_stream (ep s p) = []" "inbound_stream e = []"
    using waits(3) by (auto simp: poll_read_def read_inbound_stream_def Let_def split: if_splits)
  then have "pipe_of t = pipe_of s" "p_waiting (pipe_of s) p = []"
    unfolding waits(2) pipe_of_def by auto
  then show ?thesis using waits(1) by (simp add: pipe_step.blocked)
next
  case silent
  then show ?thesis using silent_refines [OF _ _ _ lim'] by simp
qed

lemma limited_does_limited: "limited x s \<Longrightarrow> limited_does x s ev t \<Longrightarrow> limited x t"
  using link_step_does [of x s t] by (auto simp: limited_def limited_does_def intro: link_reach.step)

interpretation pipes: forward_simulation "limited_does x" pipe_step "limited x" pipe_of for x
proof unfold_locales
  fix s ev t assume s: "limited x s" and st: "limited_does x s ev t"
  show t: "limited x t" by (rule limited_does_limited [OF s st])
  show "pipe_step (pipe_of s) ev (pipe_of t)"
    using link_refines [OF _ t] st by (simp add: limited_does_def)
qed

text \<open>
  C3: The two nodes refine a pair of byte pipes, step by step: along every run from newly
  established streams that stays within the limits (numbers, write sizes, no boundary in a
  header), over a network that loses, repeats and reorders messages, the sequence of labels of
  the code is one of the pipes. A write enters whole, a read of \<open>n\<close> bytes gets exactly the first
  \<open>n\<close> that wait, a read has to wait only when none do, and what is \<open>Silent\<close> changes nothing or
  lets bytes arrive in order up to the end of a write. Every step of the code has a label.
\<close>

theorem link_refines_pipes:
  assumes "wire_laws x" and "link_init x s" and "within_limits s"
    and "traces (limited_does x) s es t"
  shows "traces pipe_step (pipe_of s) es (pipe_of t) \<and>
    pipe_of s = \<lparr>p_written = (\<lambda>p. []), p_waiting = (\<lambda>p. []), p_read = (\<lambda>p. [])\<rparr> \<and>
    (\<forall>u v. link_step x u v \<longleftrightarrow> (\<exists>ev. link_does x u ev v))"
proof (intro conjI)
  have "limited x s" using assms(1-3) by (simp add: limited_def link_reach.init)
  with pipes.traces_refine [OF assms(4)] show "traces pipe_step (pipe_of s) es (pipe_of t)" by simp
  show "pipe_of s = \<lparr>p_written = (\<lambda>p. []), p_waiting = (\<lambda>p. []), p_read = (\<lambda>p. [])\<rparr>"
    using assms(2) by (auto simp: link_init_def fresh_stream_def pipe_of_def)
  show "\<forall>u v. link_step x u v \<longleftrightarrow> (\<exists>ev. link_does x u ev v)" by (simp add: link_step_does)
qed

lemma sample_within_limits:
  assumes "\<And>p. chunks s p = (if p then [frame sample_data] else []) \<or> chunks s p = []"
    and "\<And>p. written s p = (if p then [sample_data] else []) \<or> written s p = []"
  shows "within_limits s"
proof -
  have al: "aligned []" using aligned_append [of "[]" "[frame sample_data]"] sample_aligned by simp
  have "length (chunks s p) < 4294967295" "aligned (chunks s p)" "frames_ok (written s p)" for p
    using assms [of p] al sample_aligned by (auto simp: sample_data_def split: if_splits)
  then show ?thesis by (simp add: within_limits_def few_chunks_def)
qed

lemma link_refines_pipes_witness:
  "\<exists>t. traces (limited_does sample_ext) link_start [Put True sample_data] t \<and>
     traces pipe_step (pipe_of link_start) [Put True sample_data] (pipe_of t) \<and>
     p_written (pipe_of t) True = [sample_data]"
proof -
  let ?w = "link_start\<lparr>ep := (ep link_start)(True := sample_written),
    written := (written link_start)(True := written link_start True @ [sample_data])\<rparr>"
  have "link_does sample_ext link_start (Put True sample_data) ?w"
  proof (rule link_does.wrote)
    show "poll_write (link_clock link_start) sample_data (ep link_start True) =
      (Ready (Inr 2), sample_written, True)"
      by (simp add: link_start_def sample_written_eval poll_write_def insert_to_outbound_stream_def
          is_expired_def is_active_def frame_def Let_def sample_data_def)
  qed
  moreover have "within_limits ?w"
    by (rule sample_within_limits) (auto simp: link_start_def)
  ultimately have "limited_does sample_ext link_start (Put True sample_data) ?w"
    by (simp add: limited_does_def)
  from traces.snoc [of "limited_does sample_ext", OF traces.start this]
  have run: "traces (limited_does sample_ext) link_start [Put True sample_data] ?w" by simp
  have "within_limits link_start"
    by (rule sample_within_limits) (auto simp: link_start_def)
  from link_refines_pipes [OF sample_wire_laws link_start_init this run]
  have "traces pipe_step (pipe_of link_start) [Put True sample_data] (pipe_of ?w)" by (rule conjunct1)
  moreover have "p_written (pipe_of ?w) True = [sample_data]"
    by (simp add: pipe_of_def link_start_def)
  ultimately show ?thesis using run by blast
qed

end
