(* ===== verification/Listener_Target.thy ===== *)
theory Listener_Target
  imports Listener Sample_Node
begin

text \<open>
  \<open>src/src/listener.rs\<close>, the upkeep of the node's own address and target: finding the local
  address, pinging oneself, checking the DHT record, deciding when the private route has to
  be republished, and republishing it. A synchronous method returns the tasks it spawns
  (\<open>job\<close>); \<open>run_job\<close> runs one of them, when the runtime gets to it.
\<close>

subsection \<open>Spawned tasks\<close>

datatype job =
    UpdateLocalAddress
  | SendToMe Target bytes
  | CheckDht "record_key CryptoTyped" "Target option"
  | UpdateTarget Address
  | SendDial nat
  | SendListen nat
  | ResolveTarget Address

subsection \<open>The local address\<close>

definition update_local_address :: "veilid_api \<Rightarrow> clock \<Rightarrow> Listener \<Rightarrow> Listener \<times> api_call list" where
  "update_local_address api clk L =
     (let (laddr, L1, calls) = (case transport_type L of
            SafeTransport \<Rightarrow>
              (case new_safe api (utc_now clk) of
                 (Inr new_address, calls) \<Rightarrow>
                   (Some new_address, L\<lparr>l_local_address := Some new_address\<rparr>, calls)
               | (Inl e, calls) \<Rightarrow> (None, L, calls))
          | UnsafeTransport \<Rightarrow> (map_option new_unsafe (ns_my_node_id (node_status L)), L, []))
      in case (fst (l_local_target L1), laddr) of
           (None, Some address) \<Rightarrow>
             (case address_to_target api address of (target, calls2) \<Rightarrow>
                (L1\<lparr>l_local_target := (target, TargetActive (utc_now clk))\<rparr>, calls @ calls2))
         | _ \<Rightarrow> (L1, calls))"

definition get_local_address :: "Listener \<Rightarrow> Address option \<times> job list" where
  "get_local_address L = (case l_local_address L of
       Some address \<Rightarrow> (Some address, [])
     | None \<Rightarrow> (None, [UpdateLocalAddress]))"

definition get_node_status :: "Listener \<Rightarrow> NodeStatus option" where
  "get_node_status L = Some (node_status L)"

subsection \<open>Ping\<close>

definition send_ping :: "ext \<Rightarrow> Listener \<Rightarrow> job list run" where
  "send_ping x L = (case (l_local_address L, fst (l_local_target L)) of
       (Some laddr, Some local_target) \<Rightarrow>
         (let d = ascii ''PING'' @ encode_protobuf x (public_key x (l_my_keypair L)) in
          run_bind (encode_message x 0 0 0 laddr d (l_my_keypair L))
            (\<lambda>message_data. Return [SendToMe local_target message_data]))
     | _ \<Rightarrow> Return [])"

definition send_message_to_me :: "veilid_api \<Rightarrow> Target \<Rightarrow> bytes \<Rightarrow> api_call list" where
  "send_message_to_me api local_target message_data =
     (if routing_context api then [AppMessage DefaultSafety local_target message_data] else [])"

subsection \<open>The DHT record\<close>

definition check_address_dht_record :: "utc \<Rightarrow> Listener \<Rightarrow> job list" where
  "check_address_dht_record now L = (case l_local_address L of
       None \<Rightarrow> []
     | Some (Unsafe key) \<Rightarrow> []
     | Some (Safe key kp dht_status) \<Rightarrow>
         (let should_try_fetch = (case dht_status of
                DHTNone \<Rightarrow> True
              | DHTActive last_timestamp \<Rightarrow> now - last_timestamp > secs 10)
          in if should_try_fetch then [CheckDht key (fst (l_local_target L))] else []))"

text \<open>Rewriting the DHT status of the current address, if it is a safe one.\<close>

definition set_dht_status :: "DHTStatus \<Rightarrow> Listener \<Rightarrow> Listener" where
  "set_dht_status st L = (case l_local_address L of
       Some (Safe key keypair old) \<Rightarrow> L\<lparr>l_local_address := Some (Safe key keypair st)\<rparr>
     | _ \<Rightarrow> L)"

definition check_dht_task ::
  "veilid_api \<Rightarrow> clock \<Rightarrow> record_key CryptoTyped \<Rightarrow> Target option \<Rightarrow> Listener \<Rightarrow>
     Listener \<times> api_call list" where
  "check_dht_task api clk key current L =
     (if \<not> routing_context api then (L, [])
      else if \<not> open_dht_record api key None
      then (set_dht_status DHTNone L, [OpenDht key None])
      else (case get_dht_value api key of
          None \<Rightarrow> (set_dht_status DHTNone L, [OpenDht key None, GetDht key])
        | Some None \<Rightarrow> (L, [OpenDht key None, GetDht key])
        | Some (Some blob) \<Rightarrow>
            (let calls = [OpenDht key None, GetDht key, ImportRoute blob] in
             case import_remote_private_route api blob of
               None \<Rightarrow> (L, calls)
             | Some crypto_key \<Rightarrow>
                 (case current of
                    Some (PrivateRoute route) \<Rightarrow>
                      (if route \<noteq> crypto_key then (L, calls)
                       else (set_dht_status (DHTActive (utc_now clk)) L, calls))
                  | _ \<Rightarrow> (L, calls)))))"

subsection \<open>Republishing\<close>

definition should_update_target :: "utc \<Rightarrow> Listener \<Rightarrow> bool" where
  "should_update_target now L = (case transport_type L of
       UnsafeTransport \<Rightarrow> False
     | SafeTransport \<Rightarrow>
         (let (by_dht, has_address) = (case l_local_address L of
                Some (Safe key kp dht_status) \<Rightarrow>
                  ((case dht_status of
                      DHTNone \<Rightarrow> True
                    | DHTActive last_timestamp \<Rightarrow>
                        (case snd (l_local_target L) of
                           TargetNone \<Rightarrow> False
                         | Republishing t \<Rightarrow> False
                         | TargetActive t \<Rightarrow> now - last_timestamp > secs 30)), True)
              | _ \<Rightarrow> (False, False));
              by_target = (case snd (l_local_target L) of
                Republishing last_republish \<Rightarrow> now - last_republish > secs 10
              | TargetActive last_timestamp \<Rightarrow> now - last_timestamp > secs 30
              | TargetNone \<Rightarrow> has_address)
          in by_dht \<or> by_target \<or> (fst (l_local_target L) = None \<and> has_address)))"

definition update_target :: "utc \<Rightarrow> Listener \<Rightarrow> Listener \<times> job list" where
  "update_target now L =
     (let L1 = L\<lparr>l_local_target := (fst (l_local_target L), Republishing now)\<rparr> in
      case get_local_address L1 of
        (Some current_address, js) \<Rightarrow> (L1, js @ [UpdateTarget current_address])
      | (None, js) \<Rightarrow> (L1, js))"

definition update_target_task ::
  "veilid_api \<Rightarrow> clock \<Rightarrow> Address \<Rightarrow> Listener \<Rightarrow> Listener \<times> api_call list" where
  "update_target_task api clk current_address L = (case update_safe api current_address of
       (Inr new_target, calls) \<Rightarrow>
         (set_dht_status (DHTActive (utc_now clk))
            (L\<lparr>l_local_target := (Some new_target, TargetActive (utc_now clk))\<rparr>), calls)
     | (Inl e, calls) \<Rightarrow> (L\<lparr>l_local_target := (None, TargetNone)\<rparr>, calls))"

subsection \<open>Running a task\<close>

definition run_job :: "ext \<Rightarrow> veilid_api \<Rightarrow> clock \<Rightarrow> job \<Rightarrow> Listener \<Rightarrow> Listener \<times> api_call list" where
  "run_job x api clk j L = (case j of
       UpdateLocalAddress \<Rightarrow> update_local_address api clk L
     | SendToMe target m \<Rightarrow> (L, send_message_to_me api target m)
     | CheckDht key current \<Rightarrow> check_dht_task api clk key current L
     | UpdateTarget address \<Rightarrow> update_target_task api clk address L
     | SendDial r \<Rightarrow> (L, case stream_at r L of Some s \<Rightarrow> spawned (send_dial x api s) | None \<Rightarrow> [])
     | SendListen r \<Rightarrow> (L, case stream_at r L of Some s \<Rightarrow> spawned (send_listen x api s) | None \<Rightarrow> [])
     | ResolveTarget address \<Rightarrow> (L, snd (address_to_target api address)))"

subsection \<open>Lemmas\<close>

lemma set_dht_status_frame [simp]:
  "l_local_target (set_dht_status st L) = l_local_target L"
  "transport_type (set_dht_status st L) = transport_type L"
  "streams (set_dht_status st L) = streams L" "store (set_dht_status st L) = store L"
  "next_ref (set_dht_status st L) = next_ref L" "node_status (set_dht_status st L) = node_status L"
  by (auto simp: set_dht_status_def split: option.split Address.split)

lemma set_dht_status_address:
  "l_local_address (set_dht_status st L) = (case l_local_address L of
     Some (Safe key kp old) \<Rightarrow> Some (Safe key kp st) | a \<Rightarrow> a)"
  by (auto simp: set_dht_status_def split: option.split Address.split)

text \<open>What asks for a new route, in one place.\<close>

lemma should_update_target_iff:
  assumes "transport_type L = SafeTransport" "l_local_address L = Some (Safe key kp dht)"
  shows "should_update_target now L \<longleftrightarrow>
    dht = DHTNone \<or> fst (l_local_target L) = None \<or> snd (l_local_target L) = TargetNone \<or>
    (\<exists>t. snd (l_local_target L) = Republishing t \<and> now - t > secs 10) \<or>
    (\<exists>t. snd (l_local_target L) = TargetActive t \<and> now - t > secs 30) \<or>
    (\<exists>t d. snd (l_local_target L) = TargetActive t \<and> dht = DHTActive d \<and> now - d > secs 30)"
  using assms by (auto simp: should_update_target_def split: DHTStatus.splits TargetStatus.splits)

text \<open>No task of this file touches the streams.\<close>

lemma run_job_streams:
  "run_job x api clk j L = (L', calls) \<Longrightarrow>
    streams L' = streams L \<and> store L' = store L \<and> next_ref L' = next_ref L"
  by (cases j; cases "transport_type L")
    (auto simp: run_job_def update_local_address_def check_dht_task_def update_target_task_def Let_def
      split: sum.splits prod.splits option.splits Target.splits if_splits)

subsection \<open>Properties\<close>

text \<open>
  C29: Republishing settles: once the task of \<open>update_target\<close> has succeeded, the node has a new
  target and asks for no other one for 30 seconds; once it has failed, the target is gone and
  every later check asks again.
\<close>

theorem republish_settles:
  assumes "transport_type L = SafeTransport" and "l_local_address L = Some (Safe key kp dht)"
    and "update_target_task api clk (Safe key kp dht) L = (L', calls)"
  shows "(\<forall>t. update_safe api (Safe key kp dht) = (Inr t, calls) \<longrightarrow>
      fst (l_local_target L') = Some t \<and>
      l_local_address L' = Some (Safe key kp (DHTActive (utc_now clk))) \<and>
      (\<forall>now. should_update_target now L' \<longleftrightarrow> now - utc_now clk > secs 30)) \<and>
    (\<forall>e. update_safe api (Safe key kp dht) = (Inl e, calls) \<longrightarrow>
      fst (l_local_target L') = None \<and> (\<forall>now. should_update_target now L'))"
proof -
  have addr: "l_local_address L' = Some (Safe key kp (DHTActive (utc_now clk)))"
      "l_local_target L' = (Some t, TargetActive (utc_now clk))" "transport_type L' = SafeTransport"
    if "update_safe api (Safe key kp dht) = (Inr t, calls)" for t
    using that assms by (auto simp: update_target_task_def set_dht_status_address)
  have "should_update_target now L' \<longleftrightarrow> now - utc_now clk > secs 30"
    if "update_safe api (Safe key kp dht) = (Inr t, calls)" for t now
    by (auto simp: should_update_target_iff [OF addr(3) addr(1), OF that that] addr(2) [OF that])
  moreover have "l_local_address L' = Some (Safe key kp dht)" "l_local_target L' = (None, TargetNone)"
      "transport_type L' = SafeTransport"
    if "update_safe api (Safe key kp dht) = (Inl e, calls)" for e
    using that assms by (auto simp: update_target_task_def)
  ultimately show ?thesis
    using addr by (auto simp: should_update_target_iff)
qed

definition sample_listener :: Listener where
  "sample_listener = (listener_new SafeTransport 1 node_status_new (Keypair [9]))
     \<lparr>l_local_address := Some (Safe (CryptoTyped VLD0 (RecordKey [3])) (Some (KeyPair [4] [5])) DHTNone)\<rparr>"

lemma republish_settles_witness:
  "should_update_target 0 sample_listener \<and>
   \<not> should_update_target (secs 30) (fst (update_target_task sample_api
      \<lparr>instant_now = 0, utc_now = 0, unix_secs = 1\<rparr>
      (Safe (CryptoTyped VLD0 (RecordKey [3])) (Some (KeyPair [4] [5])) DHTNone) sample_listener))"
proof -
  let ?a = "Safe (CryptoTyped VLD0 (RecordKey [3])) (Some (KeyPair [4] [5])) DHTNone"
  let ?clk = "\<lparr>instant_now = 0, utc_now = 0, unix_secs = 1\<rparr> :: clock"
  have L: "transport_type sample_listener = SafeTransport" "l_local_address sample_listener = Some ?a"
    by (simp_all add: sample_listener_def listener_new_def)
  obtain t calls where ok: "update_safe sample_api ?a = (Inr t, calls)"
    by (simp add: sample_api_def Let_def)
  obtain L' calls' where t: "update_target_task sample_api ?clk ?a sample_listener = (L', calls')"
    by (cases "update_target_task sample_api ?clk ?a sample_listener")
  then have "calls' = calls" using ok by (simp add: update_target_task_def)
  with republish_settles [OF L t] ok t show ?thesis
    using L by (auto simp: should_update_target_iff)
qed

text \<open>
  C30: While a republish is under way, the next checks leave it alone for ten seconds, but only
  if there still is a target and the DHT record was seen: with \<open>DHTStatus::None\<close> or without a
  target every heartbeat (each five seconds) starts another one.
\<close>

theorem republish_under_way:
  assumes "transport_type L = SafeTransport" and "l_local_address L = Some (Safe key kp dht)"
  shows "should_update_target now' (fst (update_target now L)) \<longleftrightarrow>
    dht = DHTNone \<or> fst (l_local_target L) = None \<or> now' - now > secs 10"
proof -
  have "transport_type (fst (update_target now L)) = SafeTransport"
    "l_local_address (fst (update_target now L)) = Some (Safe key kp dht)"
    "l_local_target (fst (update_target now L)) = (fst (l_local_target L), Republishing now)"
    using assms by (simp_all add: update_target_def get_local_address_def)
  then show ?thesis by (simp add: should_update_target_iff)
qed

lemma republish_under_way_witness:
  "should_update_target (secs 5) (fst (update_target 0 sample_listener))"
  using republish_under_way [of sample_listener "CryptoTyped VLD0 (RecordKey [3])"
      "Some (KeyPair [4] [5])" DHTNone "secs 5" 0]
  by (simp add: sample_listener_def listener_new_def)

text \<open>The DHT record leads to the node's current private route.\<close>

definition dht_route_matches :: "veilid_api \<Rightarrow> record_key CryptoTyped \<Rightarrow> Target option \<Rightarrow> bool" where
  "dht_route_matches api key current \<longleftrightarrow>
     (\<exists>blob route. get_dht_value api key = Some (Some blob) \<and>
        import_remote_private_route api blob = Some route \<and> current = Some (PrivateRoute route))"

text \<open>
  C31: The DHT check of a safe address changes nothing but the address's DHT status, and that
  exactly so: \<open>None\<close> if the record cannot be opened or read, \<open>Active\<close> now if the record leads to
  the node's own current private route, and otherwise, a record of another route included, the
  status stays as it was. It only reads the DHT. After a failed check a republish is due at
  once; a record of another route makes one due thirty seconds after the last match.
\<close>

theorem dht_check_outcome:
  assumes "l_local_address L = Some (Safe key kp dht)"
    and "check_dht_task api clk key' current L = (L', calls)"
  shows "L' = L\<lparr>l_local_address := Some (Safe key kp
      (if \<not> routing_context api then dht
       else if \<not> open_dht_record api key' None \<or> get_dht_value api key' = None then DHTNone
       else if dht_route_matches api key' current then DHTActive (utc_now clk)
       else dht))\<rparr> \<and>
    set calls \<subseteq> {OpenDht key' None, GetDht key'} \<union> range ImportRoute \<and>
    (transport_type L = SafeTransport \<and> routing_context api \<and>
       (\<not> open_dht_record api key' None \<or> get_dht_value api key' = None) \<longrightarrow>
       (\<forall>now. should_update_target now L')) \<and>
    (transport_type L = SafeTransport \<and> dht = DHTActive t0 \<and> snd (l_local_target L) = TargetActive t1 \<and>
       routing_context api \<and> open_dht_record api key' None \<and> get_dht_value api key' \<noteq> None \<and>
       \<not> dht_route_matches api key' current \<longrightarrow>
       (\<forall>now. now - t0 > secs 30 \<longrightarrow> should_update_target now L'))"
proof -
  have st: "set_dht_status st L = L\<lparr>l_local_address := Some (Safe key kp st)\<rparr>" for st
    using assms(1) by (simp add: set_dht_status_def)
  have same: "L\<lparr>l_local_address := Some (Safe key kp dht)\<rparr> = L" using assms(1) by simp
  have L': "L' = L\<lparr>l_local_address := Some (Safe key kp
      (if \<not> routing_context api then dht
       else if \<not> open_dht_record api key' None \<or> get_dht_value api key' = None then DHTNone
       else if dht_route_matches api key' current then DHTActive (utc_now clk)
       else dht))\<rparr>"
    using assms(2) by (auto simp: check_dht_task_def st same dht_route_matches_def Let_def
        split: if_splits option.splits Target.splits)
  have calls: "set calls \<subseteq> {OpenDht key' None, GetDht key'} \<union> range ImportRoute"
    using assms(2) by (auto simp: check_dht_task_def Let_def
        split: if_splits option.splits Target.splits)
  show ?thesis
    using L' calls by (simp add: should_update_target_iff)
qed

lemma dht_check_outcome_witness:
  "l_local_address (fst (check_dht_task sample_api \<lparr>instant_now = 0, utc_now = 4, unix_secs = 1\<rparr>
     (CryptoTyped VLD0 (RecordKey [3])) (Some (PrivateRoute [7])) sample_listener)) =
   Some (Safe (CryptoTyped VLD0 (RecordKey [3])) (Some (KeyPair [4] [5])) (DHTActive 4))"
proof -
  let ?clk = "\<lparr>instant_now = 0, utc_now = 4, unix_secs = 1\<rparr> :: clock"
  obtain L' calls where t: "check_dht_task sample_api ?clk (CryptoTyped VLD0 (RecordKey [3]))
      (Some (PrivateRoute [7])) sample_listener = (L', calls)"
    by (cases "check_dht_task sample_api ?clk (CryptoTyped VLD0 (RecordKey [3]))
      (Some (PrivateRoute [7])) sample_listener")
  have a: "l_local_address sample_listener =
      Some (Safe (CryptoTyped VLD0 (RecordKey [3])) (Some (KeyPair [4] [5])) DHTNone)"
    by (simp add: sample_listener_def listener_new_def)
  from dht_check_outcome [OF a t] t show ?thesis by (auto simp: sample_api_def dht_route_matches_def)
qed

text \<open>
  C32: A ping reaches the node itself over its own route and marks the target as active now,
  with no other effect: the message \<open>send_ping\<close> builds decodes to the node's own address, and
  the arm for \<open>PING\<close> without a stream takes it.
\<close>

theorem own_ping_refreshes_target:
  assumes "wire_laws x" and "l_local_address L = Some a" and "vld0_address a"
    and "fst (l_local_target L) = Some t" and "lookup_stream (public_part a) L = None"
  shows "\<exists>m. send_ping x L = Return [SendToMe t m] \<and>
    convert_update x api clk (UpdateAppMessage m) L =
      (Return Pending, L\<lparr>l_local_target := (Some t, TargetActive (utc_now clk))\<rparr>, [])"
proof -
  let ?d = "ascii ''PING'' @ encode_protobuf x (public_key x (l_my_keypair L))"
  have laws: "payload_law x" "key_text_law x" "multiaddr_law x" "signature_law x" "signing_law x"
    using assms(1) by (simp_all add: wire_laws_def)
  obtain sg where sg: "sign x (l_my_keypair L) ?d = Some sg"
    using laws(5) by (auto simp: signing_law_def)
  obtain m where m: "encode_message x 0 0 0 a ?d (l_my_keypair L) = Return m"
    using encode_message_Return [OF laws(3)] by blast
  have "decode_message x m = Return (Inr (0, 0, 0, public_part a, ?d, sg))"
    by (rule decode_encode_message(1) [OF laws(1-4) assms(3) sg m])
  then have "convert_update x api clk (UpdateAppMessage m) L =
      (Return Pending, L\<lparr>l_local_target := (Some t, TargetActive (utc_now clk))\<rparr>, [])"
    using assms(2,4,5)
    by (simp add: convert_update_def handle_app_message_def handle_packet_def handle_no_stream_def
        message_type_control act_defs)
  moreover have "send_ping x L = Return [SendToMe t m]"
    using assms(2,4) m by (simp add: send_ping_def)
  ultimately show ?thesis by blast
qed

lemma own_ping_refreshes_target_witness:
  "\<exists>m. send_ping sample_ext (sample_listener\<lparr>l_local_target := (Some (PrivateRoute [7]), Republishing 0)\<rparr>) =
     Return [SendToMe (PrivateRoute [7]) m]"
  using own_ping_refreshes_target [OF sample_wire_laws, of
      "sample_listener\<lparr>l_local_target := (Some (PrivateRoute [7]), Republishing 0)\<rparr>"
      "Safe (CryptoTyped VLD0 (RecordKey [3])) (Some (KeyPair [4] [5])) DHTNone" "PrivateRoute [7]"]
  by (auto simp: sample_listener_def listener_new_def lookup_stream_def hm_get_def)

end
