(* ===== verification/Listener_Invariants.thy ===== *)
theory Listener_Invariants
  imports Listener
begin

text \<open>
  What the listener's handlers keep: a small calculus of preserved predicates over handlers
  (\<open>act_keeps\<close>), the evolution of streams (\<open>evolved\<close>: no stream disappears, its identity is
  fixed, its status moves forward), and the handlers' functional behaviour.
\<close>

subsection \<open>Preserved predicates\<close>

definition final :: "'a act \<Rightarrow> Listener \<Rightarrow> Listener" where
  "final m L = fst (snd (m L))"

definition act_keeps :: "(Listener \<Rightarrow> bool) \<Rightarrow> 'a act \<Rightarrow> bool" where
  "act_keeps P m \<longleftrightarrow> (\<forall>L. P L \<longrightarrow> P (final m L))"

named_theorems keeps \<open>act_keeps rules\<close>

lemma act_keepsD: "act_keeps P m \<Longrightarrow> P L \<Longrightarrow> P (final m L)"
  by (simp add: act_keeps_def)

lemma final_then:
  "final (act_then m f) L =
     (case m L of (Return a, L', c) \<Rightarrow> final (f a) L' | (Panic e, L', c) \<Rightarrow> L')"
  by (auto simp: final_def act_then_def split: prod.splits run.splits)

lemma final_return [simp]: "final (act_return a) L = L"
  by (simp add: final_def act_return_def)

lemma keeps_return [keeps]: "act_keeps P (act_return a)"
  by (simp add: act_keeps_def final_def act_return_def)

lemma keeps_lift [keeps]: "act_keeps P (act_lift r)"
  by (simp add: act_keeps_def final_def act_lift_def)

lemma keeps_calls [keeps]: "act_keeps P (act_calls r)"
  by (simp add: act_keeps_def final_def act_calls_def split: run.split)

lemma keeps_get [keeps]: "act_keeps P (act_get f)"
  by (simp add: act_keeps_def final_def act_get_def)

lemma keeps_then [keeps]:
  assumes "act_keeps P m" and "\<And>a. act_keeps P (f a)"
  shows "act_keeps P (act_then m f)"
  unfolding act_keeps_def
proof (intro allI impI)
  fix L assume "P L"
  obtain r L' c where m: "m L = (r, L', c)" by (cases "m L") auto
  then have "P L'" using act_keepsD [OF assms(1) \<open>P L\<close>] by (simp add: final_def)
  then show "P (final (act_then m f) L)"
    using act_keepsD [OF assms(2) [of "the (case r of Return a \<Rightarrow> Some a | Panic e \<Rightarrow> None)"], of L']
    by (cases r) (auto simp: final_def act_then_def m split: prod.splits)
qed

lemma keeps_modify: "(\<And>L. P L \<Longrightarrow> P (f L)) \<Longrightarrow> act_keeps P (act_modify f)"
  by (simp add: act_keeps_def final_def act_modify_def)

lemma keeps_with_stream [keeps]: "(\<And>s. act_keeps P (f s)) \<Longrightarrow> act_keeps P (with_stream r f)"
  by (auto simp: act_keeps_def final_def with_stream_def split: option.split)

subsection \<open>Evolution of streams\<close>

text \<open>The moves of a stream's status, as a step relation.\<close>

inductive status_step :: "StreamStatus \<Rightarrow> StreamStatus \<Rightarrow> bool" where
  dial_listen: "status_step Dial Listen"
| dial_active: "status_step Dial Active"
| listen_active: "status_step Listen Active"

inductive_cases status_step_from_ActiveE [elim!]: "status_step Active st"
inductive_cases status_step_from_ExpiredE [elim!]: "status_step Expired st"
inductive_cases status_step_to_ExpiredE [elim!]: "status_step st Expired"
inductive_simps status_step_simps: "status_step st st'"

definition status_moves :: "StreamStatus \<Rightarrow> StreamStatus \<Rightarrow> bool" where
  "status_moves st st' \<longleftrightarrow> st = st' \<or> status_step st st'"

lemma status_moves_refl [simp]: "status_moves st st"
  by (simp add: status_moves_def)

lemma status_moves_iff:
  "status_moves Dial st \<longleftrightarrow> st \<noteq> Expired"
  "status_moves Listen st \<longleftrightarrow> st = Listen \<or> st = Active"
  "status_moves Active st \<longleftrightarrow> st = Active"
  "status_moves Expired st \<longleftrightarrow> st = Expired"
  by (cases st; auto simp: status_moves_def status_step_simps)+

definition same_identity :: "VeilidStream \<Rightarrow> VeilidStream \<Rightarrow> bool" where
  "same_identity s s' \<longleftrightarrow>
     local_address s' = local_address s \<and> remote_address s' = remote_address s \<and>
     remote_target s' = remote_target s \<and> my_stream_id s' = my_stream_id s \<and>
     my_keypair s' = my_keypair s \<and> outbound_last_timestamp s' = outbound_last_timestamp s"

lemma same_identity_refl [simp]: "same_identity s s"
  by (simp add: same_identity_def)

definition evolved :: "Listener \<Rightarrow> Listener \<Rightarrow> bool" where
  "evolved L0 L \<longleftrightarrow> listener_wf L \<and> next_ref L0 \<le> next_ref L \<and>
     (\<forall>r s. stream_at r L0 = Some s \<longrightarrow>
        r < next_ref L0 \<and>
        (\<exists>s'. stream_at r L = Some s' \<and> same_identity s s' \<and> status_moves (status s) (status s')))"

lemma evolved_refl: "listener_wf L \<Longrightarrow> evolved L L"
  by (auto simp: evolved_def listener_wf_def stream_at_def)

lemma evolved_stream:
  "evolved L0 L \<Longrightarrow> stream_at r L0 = Some s \<Longrightarrow>
     \<exists>s'. stream_at r L = Some s' \<and> same_identity s s' \<and> status_moves (status s) (status s')"
  by (auto simp: evolved_def)

text \<open>A change of one stream that fixes its identity and moves its status forward.\<close>

lemma evolved_on_stream:
  assumes ev: "evolved L0 L"
    and id: "\<And>s. same_identity s (f s)"
    and st: "\<And>s0 s. stream_at r L0 = Some s0 \<Longrightarrow> status_moves (status s0) (status s) \<Longrightarrow>
      status_moves (status s0) (status (f s))"
  shows "evolved L0 (on_stream r f L)"
proof -
  have "listener_wf (on_stream r f L)"
    using ev id by (auto simp: evolved_def same_identity_def intro!: listener_wf_on_stream)
  moreover have "\<exists>s'. stream_at r' (on_stream r f L) = Some s' \<and> same_identity s s' \<and>
      status_moves (status s) (status s')" if old: "stream_at r' L0 = Some s" for r' s
  proof -
    obtain s' where s': "stream_at r' L = Some s'" "same_identity s s'"
      "status_moves (status s) (status s')"
      using evolved_stream [OF ev old] by blast
    show ?thesis
      using s' old id [of s'] st [of s s'] by (auto simp: same_identity_def)
  qed
  ultimately show ?thesis using ev by (auto simp: evolved_def)
qed

lemma keeps_on_stream [keeps]:
  assumes "\<And>s. same_identity s (f s)"
    and "\<And>s0 s. stream_at r L0 = Some s0 \<Longrightarrow> status_moves (status s0) (status s) \<Longrightarrow>
      status_moves (status s0) (status (f s))"
  shows "act_keeps (evolved L0) (act_modify (on_stream r f))"
  by (rule keeps_modify) (rule evolved_on_stream [OF _ assms])

lemma evolved_add_stream:
  assumes ev: "evolved L0 L" and "remote_address s = a"
  shows "evolved L0 (add_stream a s L)"
proof -
  have "r \<noteq> next_ref L" if "stream_at r L0 = Some s0" for r s0
    using ev that by (fastforce simp: evolved_def)
  then show ?thesis
    using assms listener_wf_add_stream [of L s a]
    by (fastforce simp: evolved_def add_stream_stream_at)
qed

text \<open>Changes of the listener's other fields.\<close>

lemma evolved_other_fields [simp]:
  "evolved L0 (L\<lparr>l_local_address := a\<rparr>) = evolved L0 L"
  "evolved L0 (L\<lparr>l_local_target := t\<rparr>) = evolved L0 L"
  "evolved L0 (L\<lparr>node_status := ns\<rparr>) = evolved L0 L"
  "evolved L0 (L\<lparr>l_status := st\<rparr>) = evolved L0 L"
  "evolved L0 (L\<lparr>tasks := ts\<rparr>) = evolved L0 L"
  "evolved L0 (L\<lparr>rx := us\<rparr>) = evolved L0 L"
  "evolved L0 (L\<lparr>async_rx := rs\<rparr>) = evolved L0 L"
  by (simp_all add: evolved_def listener_wf_def stream_at_def)

subsection \<open>The handlers\<close>

lemma same_identity_simple [simp]:
  "same_identity s (update_remote_stream_id i s') = same_identity s s'"
  "same_identity s (update_inbound_last_timestamp_to_now now s') = same_identity s s'"
  "same_identity s (update_status st s') = same_identity s s'"
  "same_identity s (update_remote_public_key pk s') = same_identity s s'"
  "same_identity s (generate_messages s') = same_identity s s'"
  "same_identity s (recv_message now del sq d s') = same_identity s s'"
  by (simp_all add: same_identity_def stream_defs)

lemma same_identity_trans: "same_identity a b \<Longrightarrow> same_identity b c \<Longrightarrow> same_identity a c"
  by (simp add: same_identity_def)

lemma status_simple [simp]:
  "status (update_remote_stream_id i s) = status s"
  "status (update_inbound_last_timestamp_to_now now s) = status s"
  "status (update_status st s) = st"
  "status (update_remote_public_key pk s) = status s"
  "status (active_status del s) = status s"
  by (simp_all add: stream_defs active_status_def remove_sent_messages_from_queue_def)

lemma same_identity_active [simp]:
  "same_identity s (active_status del s') = same_identity s s'"
  "same_identity s (active_data now sg del sq d s') = same_identity s s'"
  by (auto simp: active_status_def active_data_def remove_sent_messages_from_queue_def
      stream_defs same_identity_def)

lemma keeps_extract_key [keeps]: "act_keeps (evolved L0) (extract_key x tag d r)"
  unfolding extract_key_def
  by (auto intro!: keeps split: option.split)

lemma keeps_create_stream [keeps]:
  "act_keeps (evolved L0) (create_stream api clk lid laddr raddr rid kp)"
  by (auto simp: act_keeps_def final_def create_stream_def stream_new_def evolved_add_stream
      split: prod.splits option.splits)

lemma keeps_create_then:
  assumes "\<And>r. stream_at r L0 = None \<Longrightarrow> act_keeps (evolved L0) (f (Inr r))"
    and "\<And>e. act_keeps (evolved L0) (f (Inl e))"
  shows "act_keeps (evolved L0) (act_then (create_stream api clk lid laddr raddr rid kp) f)"
  unfolding act_keeps_def
proof (intro allI impI)
  fix L assume ev: "evolved L0 L"
  have fresh: "stream_at (next_ref L) L0 = None"
  proof (rule ccontr)
    assume "stream_at (next_ref L) L0 \<noteq> None"
    then obtain s where "stream_at (next_ref L) L0 = Some s" by blast
    with ev have "next_ref L < next_ref L0" and "next_ref L0 \<le> next_ref L"
      unfolding evolved_def by blast+
    then show False by simp
  qed
  let ?s = "\<lambda>t. stream_init clk lid laddr raddr t rid kp"
  have ev': "evolved L0 (add_stream raddr (?s t) L)" for t
    using ev by (simp add: evolved_add_stream)
  show "evolved L0 (final (act_then (create_stream api clk lid laddr raddr rid kp) f) L)"
    using act_keepsD [OF assms(1) [OF fresh] ev'] act_keepsD [OF assms(2) ev]
      ev by (auto simp: final_then create_stream_def stream_new_def split: prod.splits option.splits if_splits)
qed

lemma keeps_accept_dial:
  assumes "stream_at r L0 = None" and [simp]: "\<And>s s'. same_identity s (touch s') = same_identity s s'"
  shows "act_keeps (evolved L0) (accept_dial x api clk sid d touch r)"
  unfolding accept_dial_def
  using assms by (auto intro!: keeps)

lemma keeps_handle_no_stream:
  "act_keeps (evolved L0) (handle_no_stream x api clk lid laddr mt sid raddr d kp)"
  unfolding handle_no_stream_def
  by (cases mt) (auto intro!: keeps keeps_create_then keeps_accept_dial keeps_modify)

text \<open>The flush after a LISTEN: generated messages are sent and marked.\<close>

lemma same_identity_send_messages:
  "send_messages x api now s = (r, s') \<Longrightarrow> same_identity s s' \<and> status s' = status s"
  by (drule send_messages_frame) (simp add: same_identity_def)

lemma keeps_send_messages:
  "act_keeps (evolved L0) (with_stream r (\<lambda>s. case send_messages x api now s of
     (calls, s') \<Rightarrow> act_then (act_modify (set_stream r s')) (\<lambda>_. act_calls calls)))"
  unfolding act_keeps_def
proof (intro allI impI)
  fix L assume ev: "evolved L0 L"
  show "evolved L0 (final (with_stream r (\<lambda>s. case send_messages x api now s of
     (calls, s') \<Rightarrow> act_then (act_modify (set_stream r s')) (\<lambda>_. act_calls calls))) L)"
  proof (cases "stream_at r L")
    case None
    with ev show ?thesis by (simp add: final_def with_stream_def)
  next
    case (Some s)
    obtain calls s' where sm: "send_messages x api now s = (calls, s')" by fastforce
    have "final (with_stream r (\<lambda>s. case send_messages x api now s of
       (calls, s') \<Rightarrow> act_then (act_modify (set_stream r s')) (\<lambda>_. act_calls calls))) L =
      set_stream r s' L"
      using Some sm by (simp add: final_def with_stream_def act_defs split: run.split)
    also have "set_stream r s' L = on_stream r (\<lambda>s. snd (send_messages x api now s)) L"
      using Some sm by (simp add: on_stream_def)
    finally show ?thesis
      using same_identity_send_messages [of x api now _ _]
      by (simp, intro evolved_on_stream [OF ev]) (metis prod.collapse)+
  qed
qed

lemma keeps_handle_dial:
  assumes "stream_at r L0 = Some s0" and "status s0 = Dial"
  shows "act_keeps (evolved L0) (handle_dial x api clk laddr mt sid raddr d r)"
  unfolding handle_dial_def using assms
  by (cases mt; cases "address_cmp x raddr laddr")
    (auto intro!: keeps keeps_send_messages simp: status_moves_iff)

lemma keeps_handle_listen:
  assumes "stream_at r L0 = Some s0" and "status s0 = Listen"
  shows "act_keeps (evolved L0) (handle_listen x api clk mt sid sg del sq d r)"
  unfolding handle_listen_def using assms
  by (cases mt)
    (auto intro!: keeps simp: status_moves_iff)

lemma keeps_handle_active:
  assumes "stream_at r L0 = Some s0" and "status s0 = Active"
  shows "act_keeps (evolved L0) (handle_active x api clk lid laddr mt sid raddr sg del sq d kp r)"
  unfolding handle_active_def using assms
  by (cases mt)
    (auto intro!: keeps keeps_create_then keeps_accept_dial
      simp: status_moves_iff active_data_def)

lemma evolved_trans:
  assumes "evolved L0 L1" and "evolved L1 L2"
  shows "evolved L0 L2"
proof -
  have trans: "status_moves a b \<Longrightarrow> status_moves b c \<Longrightarrow> status_moves a c" for a b c
    by (cases a; cases b; cases c; simp add: status_moves_iff)
  have "\<exists>s2. stream_at r L2 = Some s2 \<and> same_identity s s2 \<and> status_moves (status s) (status s2)"
    if s: "stream_at r L0 = Some s" for r s
    using evolved_stream [OF assms(1) s] evolved_stream [OF assms(2)]
    by (blast intro: same_identity_trans trans)
  with assms show ?thesis by (auto simp: evolved_def)
qed

lemma evolved_handle_stream:
  assumes wf: "listener_wf L"
  shows "evolved L (final (handle_stream x api clk laddr sid raddr sg del sq d kp lid r) L)"
proof (cases "stream_at r L")
  case None
  with wf show ?thesis by (simp add: final_def handle_stream_def with_stream_def evolved_refl)
next
  case (Some s)
  note ev = evolved_refl [OF wf]
  have "act_keeps (evolved L) (case status s of
           Dial \<Rightarrow> handle_dial x api clk laddr (message_type d) sid raddr d r
         | Listen \<Rightarrow> handle_listen x api clk (message_type d) sid sg del sq d r
         | Active \<Rightarrow> handle_active x api clk lid laddr (message_type d) sid raddr sg del sq d kp r
         | Expired \<Rightarrow> act_return Pending)"
    using Some by (cases "status s")
      (auto intro!: keeps keeps_handle_dial keeps_handle_listen keeps_handle_active)
  from act_keepsD [OF this ev] ev Some show ?thesis
    by (simp add: final_def handle_stream_def with_stream_def act_return_def)
qed

lemma evolved_handle_packet:
  assumes wf: "listener_wf L"
  shows "evolved L (final (handle_packet x api clk pkt) L)"
proof -
  obtain del sq sid raddr d sg where pkt: "pkt = (del, sq, sid, raddr, d, sg)"
    by (cases pkt) auto
  let ?L1 = "case lookup_stream raddr L of
      Some (r, s) \<Rightarrow> (if get_remote_stream_id s = 0
                     then on_stream r (update_remote_stream_id sid) L else L)
    | None \<Rightarrow> L"
  have L1: "evolved L ?L1"
    using evolved_refl [OF wf] by (auto intro!: evolved_on_stream split: option.split)
  then have wf1: "listener_wf ?L1" by (simp add: evolved_def)
  note step = evolved_handle_stream [OF wf1, unfolded final_def]
    act_keepsD [OF keeps_handle_no_stream evolved_refl [OF wf1], unfolded final_def]
  from L1 step show ?thesis
    by (cases "l_local_address ?L1"; cases "lookup_stream raddr L")
      (auto simp: final_def handle_packet_def pkt Let_def intro: evolved_trans)
qed

lemma evolved_convert_update:
  assumes wf: "listener_wf L"
  shows "evolved L (final (convert_update x api clk u) L)"
proof -
  note ev = evolved_refl [OF wf]
  show ?thesis
  proof (cases u)
    case (UpdateAppMessage m)
    then show ?thesis
      using ev evolved_handle_packet [OF wf]
      by (auto simp: convert_update_def handle_app_message_def final_def act_lift_def act_return_def
          split: run.splits sum.splits)
  next
    case (UpdateAttachment st ready)
    let ?L1 = "fst (note_attachment st ready L)"
    have "evolved L ?L1" using ev by (simp add: note_attachment_def Let_def)
    moreover have "act_keeps (evolved L) (try_online x api clk tt)" for tt
      by (cases tt)
        (auto simp: act_keeps_def final_def try_online_def Let_def act_defs
          split: option.splits run.splits sum.splits prod.splits)
    moreover have "act_keeps (evolved L) (act_modify (\<lambda>L. L\<lparr>l_status := Online\<rparr>))"
      by (rule keeps_modify) simp
    ultimately have "act_keeps (evolved L)
      (act_then (if b then try_online x api clk (transport_type ?L1) else act_return None)
       (\<lambda>addr. case addr of
            None \<Rightarrow> act_return Pending
          | Some listen_addr \<Rightarrow>
              act_then (act_modify (\<lambda>L. L\<lparr>l_status := Online\<rparr>)) (\<lambda>_.
              act_then (act_get l_id) (\<lambda>lid.
                act_return (Ready (Some (NewAddress lid listen_addr)))))))" for b
      by (auto intro!: keeps split: option.split)
    from act_keepsD [OF this [of "snd (note_attachment st ready L)"] \<open>evolved L ?L1\<close>]
    show ?thesis
      by (cases "note_attachment st ready L")
        (auto simp: UpdateAttachment convert_update_def handle_attachment_def final_def
          split: if_splits)
  next
    case (UpdateConfig cfg)
    have "evolved L (handle_config cfg L)"
      using ev by (auto simp: handle_config_def Let_def split: option.split VeilidTransportType.split)
    with UpdateConfig show ?thesis by (simp add: convert_update_def final_def act_defs)
  qed (use ev in \<open>auto simp: convert_update_def handle_route_change_def final_def act_defs
        split: option.splits\<close>)
qed

end
