(* ===== verification/Errors.thy ===== *)
theory Errors
  imports Prelude
begin

text \<open>
  \<open>src/src/errors.rs\<close>: the transport's error type, its \<open>source\<close> and its \<open>Display\<close> text.
  The wrapped errors of the standard library and of veilid-core are opaque, known by the
  text they print.
\<close>

datatype io_error = IoErrorText (io_text: string)
datatype VeilidAPIError = ApiErrorText (api_text: string)

datatype VeilidError =
    IoError io_error
  | VeilidApiError VeilidAPIError
  | CallbackNotDefined
  | CouldNotCreateListener
  | KeyPairDoesntExist
  | APINotDefined
  | InvalidMultiaddr
  | StreamNotFound
  | Generic string

definition error_from_api :: "VeilidAPIError \<Rightarrow> VeilidError" where
  "error_from_api err = VeilidApiError err"

fun error_source :: "VeilidError \<Rightarrow> (io_error + VeilidAPIError) option" where
  "error_source (IoError err) = Some (Inl err)"
| "error_source (VeilidApiError err) = Some (Inr err)"
| "error_source CallbackNotDefined = None"
| "error_source CouldNotCreateListener = None"
| "error_source KeyPairDoesntExist = None"
| "error_source APINotDefined = None"
| "error_source InvalidMultiaddr = None"
| "error_source StreamNotFound = None"
| "error_source (Generic msg) = None"

text \<open>
  \<open>{:?}\<close> of a string: quoted, with quotes, backslashes and line breaks escaped (the
  messages of this program are printable ASCII).
\<close>

fun escape_debug :: "string \<Rightarrow> string" where
  "escape_debug [] = []"
| "escape_debug (c # cs) =
     (if c = CHR 0x22 then [CHR 0x5C, CHR 0x22]
      else if c = CHR 0x5C then [CHR 0x5C, CHR 0x5C]
      else if c = CHR 0x0A then [CHR 0x5C, CHR ''n'']
      else if c = CHR 0x0D then [CHR 0x5C, CHR ''r'']
      else if c = CHR 0x09 then [CHR 0x5C, CHR ''t'']
      else [c]) @ escape_debug cs"

definition debug_string :: "string \<Rightarrow> string" where
  "debug_string s = [CHR 0x22] @ escape_debug s @ [CHR 0x22]"

fun error_display :: "VeilidError \<Rightarrow> string" where
  "error_display (IoError err) = ''IO error: '' @ io_text err"
| "error_display (VeilidApiError err) = ''Veilid API error: '' @ api_text err"
| "error_display CallbackNotDefined = ''Callback is not defined''"
| "error_display CouldNotCreateListener = ''Could not create a Libp2p Listener''"
| "error_display KeyPairDoesntExist = ''Key pair doesn't not exist''"
| "error_display APINotDefined = ''VeilidAPI does not exist''"
| "error_display InvalidMultiaddr = ''Multiaddr is not a unix formatted address''"
| "error_display StreamNotFound = ''Multiaddr is not a unix formatted address''"
| "error_display (Generic msg) = debug_string msg"

lemma error_source_iff:
  "error_source e \<noteq> None \<longleftrightarrow> (\<exists>i. e = IoError i) \<or> (\<exists>a. e = VeilidApiError a)"
  by (cases e) auto

end
