(* ===== verification/Transport.thy ===== *)
theory Transport
  imports Listener_Target Listener_Invariants Errors
begin

text \<open>
  \<open>src/src/lib.rs\<close>: the transport libp2p drives. It owns the listener, starts the node
  (\<open>listen_on\<close>), dials (\<open>dial\<close>, whose future is \<open>dial_task\<close>), hands out the listener's events
  (\<open>poll\<close>) and runs the maintenance of the streams and of the node's address (\<open>heartbeat\<close>).
  The interval timer is the runtime's: a poll is told how many of its ticks are due.
\<close>

subsection \<open>State\<close>

datatype transport_error = Other VeilidError | MultiaddrNotSupported multiaddr

text \<open>
  The two callbacks, the receiver of updates, the API handle and the runtime handle are known
  by whether they are there.
\<close>

record VeilidTransport =
  t_transport_type :: VeilidTransportType
  t_my_keypair :: Keypair
  update_callback :: bool
  config_callback :: bool
  update_receiver :: bool
  t_api :: bool
  runtime :: bool
  t_listener :: "Listener option"
  events :: "transport_event list"
  t_status :: NodeStatus

definition transport_new :: "bool \<Rightarrow> Keypair \<Rightarrow> VeilidTransportType \<Rightarrow> VeilidTransport" where
  "transport_new handle node_keys tt = \<lparr>
     t_transport_type = tt,
     t_my_keypair = node_keys,
     update_callback = True,
     config_callback = True,
     update_receiver = True,
     t_api = False,
     runtime = handle,
     t_listener = None,
     events = [],
     t_status = node_status_new\<rparr>"

definition pop_event :: "VeilidTransport \<Rightarrow> transport_event option \<times> VeilidTransport" where
  "pop_event T = (case events T of
       [] \<Rightarrow> (None, T)
     | e # es \<Rightarrow> (Some e, T\<lparr>events := es\<rparr>))"

subsection \<open>Listening\<close>

text \<open>\<open>startup\<close> is what the spawned \<open>api_startup\<close> and \<open>attach\<close> report back.\<close>

definition listen_on ::
  "VeilidAPIError + unit \<Rightarrow> nat \<Rightarrow> VeilidTransport \<Rightarrow>
     (transport_error + unit) run \<times> VeilidTransport" where
  "listen_on startup lid T =
     (if \<not> update_callback T then (Return (Inl (Other CallbackNotDefined)), T)
      else if \<not> config_callback T then (Return (Inl (Other CallbackNotDefined)), T)
      else if \<not> t_api T then
        (if \<not> runtime T then (Panic ''listen_on: unwrap'', T)
         else (case startup of
             Inr u \<Rightarrow>
               (let T1 = T\<lparr>t_api := True\<rparr> in
                if update_receiver T1
                then (Return (Inr ()),
                      T1\<lparr>update_receiver := False,
                         t_listener := Some (listener_new (t_transport_type T) lid (t_status T)
                                               (t_my_keypair T))\<rparr>)
                else (Return (Inl (Other CouldNotCreateListener)), T1))
           | Inl e \<Rightarrow> (Return (Inl (Other (VeilidApiError e))), T)))
      else (Return (Inl (Other CouldNotCreateListener)), T))"

subsection \<open>Dialing\<close>

datatype dial_future =
  DialFuture (df_remote: Address) (df_local: Address) (df_listener: nat) (df_keys: Keypair)

definition dial ::
  "ext \<Rightarrow> multiaddr \<Rightarrow> VeilidTransport \<Rightarrow> (transport_error + dial_future) \<times> job list" where
  "dial x addr T = (case try_from_multiaddr x addr of
       Inl e \<Rightarrow> (Inl (MultiaddrNotSupported addr), [])
     | Inr raddr \<Rightarrow>
         (if \<not> t_api T then (Inl (Other APINotDefined), [])
          else (case t_listener T of
              None \<Rightarrow> (Inl (Other (Generic ''Listener not found'')), [])
            | Some L \<Rightarrow>
                (case get_local_address L of
                   (None, js) \<Rightarrow> (Inl (Other (Generic ''Local address not found'')), js)
                 | (Some laddr, js) \<Rightarrow>
                     (case lookup_stream raddr L of
                        Some (r, s) \<Rightarrow>
                          (if status s = Listen
                           then (Inl (Other (Generic ''Already connecting'')), js)
                           else (Inr (DialFuture raddr laddr (l_id L) (t_my_keypair T)), js))
                      | None \<Rightarrow> (Inr (DialFuture raddr laddr (l_id L) (t_my_keypair T)), js))))))"

definition dial_task ::
  "ext \<Rightarrow> veilid_api \<Rightarrow> clock \<Rightarrow> dial_future \<Rightarrow> (VeilidError + VeilidConnection) act" where
  "dial_task x api clk f = (\<lambda>L. case address_to_target api (df_remote f) of
       (Some rtarget, calls) \<Rightarrow>
         (case stream_new clk (df_listener f) (df_local f) (df_remote f) rtarget 0 (df_keys f) of
            Panic e \<Rightarrow> (Panic e, L, calls)
          | Return s \<Rightarrow>
              (let connection = connection_new (df_local f) rtarget (next_ref L);
                   L1 = add_stream (df_remote f) s L
               in case connect x api s of
                    Return sent \<Rightarrow> (Return (Inr connection), L1, calls @ sent)
                  | Panic e \<Rightarrow> (Panic e, L1, calls)))
     | (None, calls) \<Rightarrow> (Return (Inl (Generic ''remote target not found'')), L, calls))"

definition remove_listener :: "nat \<Rightarrow> VeilidTransport \<Rightarrow> bool" where
  "remove_listener lid T = True"

subsection \<open>The heartbeat\<close>

text \<open>One stream of the map: the addresses to delete and the tasks to spawn.\<close>

definition heartbeat_stream ::
  "ext \<Rightarrow> veilid_api \<Rightarrow> clock \<Rightarrow> nat \<Rightarrow> (Address list \<times> job list) act" where
  "heartbeat_stream x api clk r = with_stream r (\<lambda>s.
     if is_active (instant_now clk) s then
       act_then (act_calls (send_status_if_stale x api (instant_now clk) s)) (\<lambda>_.
       act_then (act_modify (on_stream r generate_messages)) (\<lambda>_.
       with_stream r (\<lambda>s. case send_messages x api (instant_now clk) s of
         (calls, s') \<Rightarrow> act_then (act_modify (set_stream r s')) (\<lambda>_.
           act_then (act_calls calls) (\<lambda>_. act_return ([], []))))))
     else if is_expired (instant_now clk) s then act_return ([remote_address s], [])
     else (case get_status (instant_now clk) s of
         Inr st \<Rightarrow> (case st of
             Dial \<Rightarrow> act_return ([], [SendDial r])
           | Listen \<Rightarrow> act_return ([], [SendListen r])
           | _ \<Rightarrow> act_return ([], []))
       | Inl e \<Rightarrow> act_return ([], [])))"

fun heartbeat_streams ::
  "ext \<Rightarrow> veilid_api \<Rightarrow> clock \<Rightarrow> nat list \<Rightarrow> (Address list \<times> job list) act" where
  "heartbeat_streams x api clk [] = act_return ([], [])"
| "heartbeat_streams x api clk (r # rs) =
     act_then (heartbeat_stream x api clk r) (\<lambda>(del, js).
     act_then (heartbeat_streams x api clk rs) (\<lambda>(del', js').
       act_return (del @ del', js @ js')))"

definition delete_stream :: "Address \<Rightarrow> Listener \<Rightarrow> Listener" where
  "delete_stream a L = (case hm_get a (streams L) of
       Some r \<Rightarrow> on_stream r wake_to_read (L\<lparr>streams := hm_remove a (streams L)\<rparr>)
     | None \<Rightarrow> L)"

definition heartbeat_listener ::
  "ext \<Rightarrow> veilid_api \<Rightarrow> clock \<Rightarrow> bool \<Rightarrow> VeilidTransportType \<Rightarrow> job list act" where
  "heartbeat_listener x api clk has_api tt =
     act_then (act_get (\<lambda>L. hm_values (streams L))) (\<lambda>refs.
     act_then (heartbeat_streams x api clk refs) (\<lambda>(to_delete, sends).
     act_then (act_get (check_address_dht_record (utc_now clk))) (\<lambda>check.
     act_then (\<lambda>L. case tt of
         UnsafeTransport \<Rightarrow> act_return [] L
       | SafeTransport \<Rightarrow>
           (if ns_is_attached (node_status L) \<and> fst (l_local_target L) \<noteq> None
            then act_lift (send_ping x L) L else act_return [] L)) (\<lambda>ping.
     act_then (act_modify (fold delete_stream to_delete)) (\<lambda>_.
     act_then (act_get (\<lambda>L. case l_local_address L of
         Some laddr \<Rightarrow> if has_api then [ResolveTarget laddr] else []
       | None \<Rightarrow> [])) (\<lambda>resolve.
     act_then (\<lambda>L. if has_api \<and> should_update_target (utc_now clk) L
         then (case update_target (utc_now clk) L of (L1, js) \<Rightarrow> (Return js, L1, []))
         else act_return [] L) (\<lambda>update.
       act_return (sends @ check @ ping @ resolve @ update))))))))"

definition heartbeat ::
  "ext \<Rightarrow> veilid_api \<Rightarrow> clock \<Rightarrow> VeilidTransport \<Rightarrow> job list run \<times> VeilidTransport \<times> api_call list" where
  "heartbeat x api clk T = (case t_listener T of
       None \<Rightarrow> (Return [], T, [])
     | Some L \<Rightarrow>
         (case heartbeat_listener x api clk (t_api T) (t_transport_type T) L of
            (r, L', calls) \<Rightarrow> (r, T\<lparr>t_listener := Some L'\<rparr>, calls)))"

subsection \<open>Polling\<close>

fun heartbeats ::
  "ext \<Rightarrow> veilid_api \<Rightarrow> clock \<Rightarrow> nat \<Rightarrow> VeilidTransport \<Rightarrow>
     job list run \<times> VeilidTransport \<times> api_call list" where
  "heartbeats x api clk 0 T = (Return [], T, [])"
| "heartbeats x api clk (Suc n) T =
     (case heartbeat x api clk T of
        (Panic e, T1, calls) \<Rightarrow> (Panic e, T1, calls)
      | (Return js, T1, calls) \<Rightarrow>
          (case heartbeats x api clk n T1 of
             (Panic e, T2, calls2) \<Rightarrow> (Panic e, T2, calls @ calls2)
           | (Return js2, T2, calls2) \<Rightarrow> (Return (js @ js2), T2, calls @ calls2)))"

definition poll ::
  "ext \<Rightarrow> veilid_api \<Rightarrow> clock \<Rightarrow> nat \<Rightarrow> VeilidTransport \<Rightarrow>
     (transport_event poll \<times> job list) run \<times> VeilidTransport \<times> api_call list" where
  "poll x api clk ticks T = (case pop_event T of
       (Some event, T1) \<Rightarrow> (Return (Ready event, []), T1, [])
     | (None, T1) \<Rightarrow>
         (let (next_event, T2) = (case t_listener T1 of
                Some L \<Rightarrow>
                  (case get_next_event L of (e, L') \<Rightarrow> (e, T1\<lparr>t_listener := Some L'\<rparr>))
              | None \<Rightarrow> (Pending, T1))
          in case next_event of
               Ready (Some event) \<Rightarrow> (Return (Ready event, []), T2, [])
             | _ \<Rightarrow>
                 (case heartbeats x api clk ticks T2 of
                    (Return js, T3, calls) \<Rightarrow> (Return (Pending, js), T3, calls)
                  | (Panic e, T3, calls) \<Rightarrow> (Panic e, T3, calls))))"

subsection \<open>Properties\<close>

text \<open>
  C28: Starting to listen succeeds at most once and only when the node starts: a listener is
  created exactly then, a failed start can be retried with nothing changed, and every later
  call is refused without touching the transport.
\<close>

theorem listen_on_once:
  assumes "update_callback T" and "config_callback T" and "runtime T" and "update_receiver T"
    and "\<not> t_api T"
  shows "(\<forall>e. listen_on (Inl e) lid T = (Return (Inl (Other (VeilidApiError e))), T)) \<and>
    (\<exists>T'. listen_on (Inr ()) lid T = (Return (Inr ()), T') \<and>
       t_listener T' = Some (listener_new (t_transport_type T) lid (t_status T) (t_my_keypair T)) \<and>
       (\<forall>startup lid'. listen_on startup lid' T' = (Return (Inl (Other CouldNotCreateListener)), T')))"
  using assms by (simp add: listen_on_def)

lemma listen_on_once_witness:
  "\<exists>T'. listen_on (Inr ()) 1 (transport_new True (Keypair [1]) SafeTransport) = (Return (Inr ()), T') \<and>
     t_listener T' = Some (listener_new SafeTransport 1 node_status_new (Keypair [1]))"
  using listen_on_once [of "transport_new True (Keypair [1]) SafeTransport" 1]
  by (auto simp: transport_new_def)

text \<open>
  C27: Dialing an address again replaces its stream unless the first is in state \<open>Listen\<close>: the
  check for a pending connection does not count a stream in state \<open>Dial\<close> (nor an active one),
  and the new stream takes the address over while the old connection keeps the old stream.
\<close>

theorem dial_replaces_stream:
  assumes "listener_wf L" and "t_listener T = Some L" and "t_api T"
    and "try_from_multiaddr x addr = Inr raddr" and "l_local_address L = Some laddr"
    and "lookup_stream raddr L = Some (r, s)"
  shows "(status s = Listen \<longrightarrow> dial x addr T = (Inl (Other (Generic ''Already connecting'')), [])) \<and>
    (status s \<noteq> Listen \<longrightarrow>
      (\<exists>f. dial x addr T = (Inr f, []) \<and>
        (\<forall>api clk c L' calls. dial_task x api clk f L = (Return (Inr c), L', calls) \<longrightarrow>
           conn_stream c = next_ref L \<and> stream_at r L' = Some s \<and> conn_stream c \<noteq> r \<and>
           (\<exists>s'. lookup_stream raddr L' = Some (conn_stream c, s') \<and> status s' = Dial \<and>
              get_remote_stream_id s' = 0))))"
proof -
  have r: "r < next_ref L" "stream_at r L = Some s"
    using assms(1) lookup_streamD [OF assms(6)] by (auto simp: listener_wf_def stream_at_def)
  let ?f = "DialFuture raddr laddr (l_id L) (t_my_keypair T)"
  have inner: "\<forall>api clk c L' calls. dial_task x api clk ?f L = (Return (Inr c), L', calls) \<longrightarrow>
      conn_stream c = next_ref L \<and> stream_at r L' = Some s \<and> conn_stream c \<noteq> r \<and>
      (\<exists>s'. lookup_stream raddr L' = Some (conn_stream c, s') \<and> status s' = Dial \<and>
         get_remote_stream_id s' = 0)"
    using r assms(1)
    by (auto simp: dial_task_def stream_new_def Let_def connection_new_def add_stream_stream_at add_stream_lookup
        get_remote_stream_id_def split: prod.splits option.splits run.splits if_splits)
  have eval: "dial x addr T = (if status s = Listen
      then (Inl (Other (Generic ''Already connecting'')), []) else (Inr ?f, []))"
    using assms(2-6) by (simp add: dial_def get_local_address_def)
  show ?thesis
  proof (intro conjI impI)
    assume "status s = Listen"
    with eval show "dial x addr T = (Inl (Other (Generic ''Already connecting'')), [])" by simp
  next
    assume "status s \<noteq> Listen"
    with eval have "dial x addr T = (Inr ?f, [])" by simp
    with inner show "\<exists>f. dial x addr T = (Inr f, []) \<and>
        (\<forall>api clk c L' calls. dial_task x api clk f L = (Return (Inr c), L', calls) \<longrightarrow>
           conn_stream c = next_ref L \<and> stream_at r L' = Some s \<and> conn_stream c \<noteq> r \<and>
           (\<exists>s'. lookup_stream raddr L' = Some (conn_stream c, s') \<and> status s' = Dial \<and>
              get_remote_stream_id s' = 0))" by blast
  qed
qed

end
