(* ===== verification/Heartbeat.thy ===== *)
theory Heartbeat
  imports Transport Sample_Run
begin

text \<open>
  What a heartbeat does to the streams: it never panics, active streams are cut and sent,
  expired ones are taken out of the map and their readers woken, pending ones are announced
  again. The functional behaviour of one stream (\<open>heartbeat_tick\<close>) lifts to the whole map.
\<close>

subsection \<open>One stream\<close>

definition heartbeat_tick :: "ext \<Rightarrow> veilid_api \<Rightarrow> instant \<Rightarrow> VeilidStream \<Rightarrow> VeilidStream" where
  "heartbeat_tick x api now s =
     (if is_active now s then snd (send_messages x api now (generate_messages s)) else s)"

text \<open>The calls it makes for the stream: a status if one is due, and the messages that are due.\<close>

definition heartbeat_calls :: "ext \<Rightarrow> veilid_api \<Rightarrow> instant \<Rightarrow> VeilidStream \<Rightarrow> api_call list" where
  "heartbeat_calls x api now s =
     (if is_active now s
      then spawned (send_status_if_stale x api now s) @
           spawned (fst (send_messages x api now (generate_messages s)))
      else [])"

definition heartbeat_expired :: "instant \<Rightarrow> VeilidStream \<Rightarrow> Address list" where
  "heartbeat_expired now s =
     (if \<not> is_active now s \<and> is_expired now s then [remote_address s] else [])"

definition heartbeat_jobs :: "instant \<Rightarrow> nat \<Rightarrow> VeilidStream \<Rightarrow> job list" where
  "heartbeat_jobs now r s =
     (if is_active now s \<or> is_expired now s then []
      else (case status s of Dial \<Rightarrow> [SendDial r] | Listen \<Rightarrow> [SendListen r] | _ \<Rightarrow> []))"

text \<open>A listener whose streams number and cut their messages correctly.\<close>

definition queues_wf :: "Listener \<Rightarrow> bool" where
  "queues_wf L \<longleftrightarrow>
     (\<forall>r s. stream_at r L = Some s \<longrightarrow> outbound_queue_wf (outbound_message_queue s))"

lemma send_status_no_panic:
  assumes "multiaddr_law x"
  shows "\<exists>calls. send_status_if_stale x api now s = Return calls"
proof -
  obtain b where "encode_message x (get_inbound_received_seq s) (get_outbound_last_seq s)
      (my_stream_id s) (local_address s) (ascii ''STATUS'') (my_keypair s) = Return b"
    using encode_message_Return [OF assms] by blast
  then show ?thesis by (simp add: send_status_if_stale_def Let_def)
qed

lemma heartbeat_tick_frame [simp]:
  "remote_address (heartbeat_tick x api now s) = remote_address s"
  "status (heartbeat_tick x api now s) = status s"
  "waker (heartbeat_tick x api now s) = waker s"
  "inbound_last_timestamp (heartbeat_tick x api now s) = inbound_last_timestamp s"
  "inbound_stream (heartbeat_tick x api now s) = inbound_stream s"
  "wakes (heartbeat_tick x api now s) = wakes s"
  by (simp_all add: heartbeat_tick_def send_messages_def Let_def generate_messages_def
      split: prod.split)

lemma heartbeat_tick_wf:
  "outbound_queue_wf (outbound_message_queue s) \<Longrightarrow>
     outbound_queue_wf (outbound_message_queue (heartbeat_tick x api now s))"
  by (simp add: heartbeat_tick_def send_messages_def Let_def mark_sent_queue_wf generate_messages_wf)

lemma heartbeat_stream_eval:
  assumes law: "multiaddr_law x" and s: "stream_at r L = Some s"
    and wf: "outbound_queue_wf (outbound_message_queue s)"
  shows "heartbeat_stream x api clk r L =
    (Return (heartbeat_expired (instant_now clk) s, heartbeat_jobs (instant_now clk) r s),
     on_stream r (heartbeat_tick x api (instant_now clk)) L, heartbeat_calls x api (instant_now clk) s)"
proof (cases "is_active (instant_now clk) s")
  case True
  let ?now = "instant_now clk" and ?g = "generate_messages s"
  obtain c1 where c1: "send_status_if_stale x api ?now s = Return c1"
    using send_status_no_panic [OF law] by blast
  obtain c2 s' where c2: "send_messages x api ?now ?g = (Return c2, s')"
    using send_messages_no_panic [OF law generate_messages_wf [OF wf], of api ?now]
    by (cases "send_messages x api ?now ?g"; cases "fst (send_messages x api ?now ?g)") auto
  have "heartbeat_stream x api clk r L = (Return ([], []), set_stream r s' L, c1 @ c2)"
    using True s c1 c2
    by (simp add: heartbeat_stream_def with_stream_def act_defs on_stream_def)
  with True s c1 c2 show ?thesis
    by (simp add: heartbeat_calls_def heartbeat_expired_def heartbeat_jobs_def on_stream_def heartbeat_tick_def)
next
  case False
  then have "on_stream r (heartbeat_tick x api (instant_now clk)) L = L"
    by (intro on_stream_same [OF s]) (simp add: heartbeat_tick_def)
  with False s show ?thesis
    by (auto simp: heartbeat_stream_def with_stream_def act_defs heartbeat_expired_def
        heartbeat_jobs_def heartbeat_calls_def get_status_def is_active_def is_expired_def
        split: StreamStatus.split)
qed

lemma heartbeat_sends:
  assumes law: "multiaddr_law x" and act: "is_active now s"
    and wf: "outbound_queue_wf (outbound_message_queue s)"
  shows "\<exists>st sent. send_status_if_stale x api now s = Return st \<and>
    send_messages x api now (generate_messages s) = (Return sent, heartbeat_tick x api now s) \<and>
    heartbeat_calls x api now s = st @ sent"
proof -
  obtain sent s' where "send_messages x api now (generate_messages s) = (Return sent, s')"
    using send_messages_no_panic [OF law generate_messages_wf [OF wf], of api now]
    by (cases "send_messages x api now (generate_messages s)";
        cases "fst (send_messages x api now (generate_messages s))") auto
  then show ?thesis
    using send_status_no_panic [OF law, of api now s] act
    by (auto simp: heartbeat_calls_def heartbeat_tick_def)
qed

subsection \<open>All streams\<close>

lemma queues_wf_on_stream:
  "queues_wf L \<Longrightarrow> (\<And>s. outbound_queue_wf (outbound_message_queue s) \<Longrightarrow>
     outbound_queue_wf (outbound_message_queue (f s))) \<Longrightarrow> queues_wf (on_stream r f L)"
  by (auto simp: queues_wf_def)

lemma heartbeat_streams_eval:
  assumes law: "multiaddr_law x" and "distinct rs" and "\<forall>r \<in> set rs. stream_at r L \<noteq> None"
    and "queues_wf L"
  shows "heartbeat_streams x api clk rs L =
    (Return (concat (map (\<lambda>r. heartbeat_expired (instant_now clk) (the (stream_at r L))) rs),
             concat (map (\<lambda>r. heartbeat_jobs (instant_now clk) r (the (stream_at r L))) rs)),
     fold (\<lambda>r. on_stream r (heartbeat_tick x api (instant_now clk))) rs L,
     concat (map (\<lambda>r. heartbeat_calls x api (instant_now clk) (the (stream_at r L))) rs))"
  using assms(2-4)
proof (induction rs arbitrary: L)
  case Nil
  then show ?case by (simp add: act_return_def)
next
  case (Cons r rs)
  let ?now = "instant_now clk"
  let ?L = "on_stream r (heartbeat_tick x api ?now) L"
  obtain s where s: "stream_at r L = Some s" using Cons.prems by auto
  then have "outbound_queue_wf (outbound_message_queue s)"
    using Cons.prems by (simp add: queues_wf_def)
  note 1 = heartbeat_stream_eval [OF law s this, of api clk]
  have "distinct rs" "\<forall>r' \<in> set rs. stream_at r' ?L \<noteq> None" "queues_wf ?L"
    using Cons.prems by (auto intro: queues_wf_on_stream heartbeat_tick_wf)
  note 2 = Cons.IH [OF this]
  have other: "stream_at r' ?L = stream_at r' L" if "r' \<in> set rs" for r'
    using that Cons.prems by auto
  have maps: "map (\<lambda>r. heartbeat_expired ?now (the (stream_at r ?L))) rs =
      map (\<lambda>r. heartbeat_expired ?now (the (stream_at r L))) rs"
    "map (\<lambda>r. heartbeat_jobs ?now r (the (stream_at r ?L))) rs =
      map (\<lambda>r. heartbeat_jobs ?now r (the (stream_at r L))) rs"
    "map (\<lambda>r. heartbeat_calls x api ?now (the (stream_at r ?L))) rs =
      map (\<lambda>r. heartbeat_calls x api ?now (the (stream_at r L))) rs"
    by (rule map_cong [OF refl], simp only: other)+
  show ?case
    using 1 2 [unfolded maps] s by (simp add: act_then_def act_return_def)
qed

lemma fold_on_stream_at:
  assumes "distinct rs"
  shows "stream_at r (fold (\<lambda>r. on_stream r f) rs L) =
    (if r \<in> set rs then map_option f (stream_at r L) else stream_at r L)"
  using assms by (induction rs arbitrary: L) auto

lemma fold_on_stream_frame [simp]:
  "streams (fold (\<lambda>r. on_stream r f) rs L) = streams L"
  "l_local_address (fold (\<lambda>r. on_stream r f) rs L) = l_local_address L"
  "l_local_target (fold (\<lambda>r. on_stream r f) rs L) = l_local_target L"
  "node_status (fold (\<lambda>r. on_stream r f) rs L) = node_status L"
  "transport_type (fold (\<lambda>r. on_stream r f) rs L) = transport_type L"
  "l_my_keypair (fold (\<lambda>r. on_stream r f) rs L) = l_my_keypair L"
  by (induction rs arbitrary: L) simp_all

text \<open>The references in the map are distinct: each stream has one remote address.\<close>

lemma distinct_map_refs:
  assumes "listener_wf L"
  shows "distinct (hm_values (streams L))"
proof -
  have wf: "distinct (map fst (streams L))" using assms by (simp add: listener_wf_def hm_wf_def)
  have "inj_on snd (set (streams L))"
  proof (rule inj_onI)
    fix p q assume p: "p \<in> set (streams L)" and q: "q \<in> set (streams L)" and eq: "snd p = snd q"
    have "hm_get (fst p) (streams L) = Some (snd p)" "hm_get (fst q) (streams L) = Some (snd q)"
      using wf p q by (simp_all add: hm_get_def map_of_eq_Some_iff)
    with assms eq have "fst p = fst q" unfolding listener_wf_def by (metis option.inject)
    with eq show "p = q" by (simp add: prod_eq_iff)
  qed
  moreover have "distinct (streams L)" using wf by (simp add: distinct_map)
  ultimately show ?thesis by (simp add: hm_values_def distinct_map)
qed

subsection \<open>Deleting\<close>

lemma delete_stream_streams:
  "hm_get a' (streams (delete_stream a L)) = (if a' = a then None else hm_get a' (streams L))"
  by (auto simp: delete_stream_def hm.get_remove split: option.split)

lemma stream_at_streams_update [simp]: "stream_at r (L\<lparr>streams := m\<rparr>) = stream_at r L"
  by (simp add: stream_at_def)

lemma delete_stream_store:
  "stream_at r (delete_stream a L) = (if hm_get a (streams L) = Some r
     then map_option wake_to_read (stream_at r L) else stream_at r L)"
  by (auto simp: delete_stream_def split: option.split)

lemma fold_delete_streams:
  "hm_get a' (streams (fold delete_stream as L)) =
     (if a' \<in> set as then None else hm_get a' (streams L))"
  by (induction as arbitrary: L) (auto simp: delete_stream_streams)

lemma fold_delete_store:
  assumes "\<forall>a b r. hm_get a (streams L) = Some r \<longrightarrow> hm_get b (streams L) = Some r \<longrightarrow> a = b"
  shows "stream_at r (fold delete_stream as L) = (if \<exists>a \<in> set as. hm_get a (streams L) = Some r
     then map_option wake_to_read (stream_at r L) else stream_at r L)"
  using assms
proof (induction as arbitrary: L)
  case (Cons a as)
  have inj: "\<forall>a' b r. hm_get a' (streams (delete_stream a L)) = Some r \<longrightarrow>
      hm_get b (streams (delete_stream a L)) = Some r \<longrightarrow> a' = b"
    using Cons.prems unfolding delete_stream_streams by (metis option.distinct(1))
  show ?case
    using Cons.IH [OF inj] Cons.prems
    by (auto simp: delete_stream_streams delete_stream_store)
qed simp

lemma fold_delete_frame [simp]:
  "l_local_address (fold delete_stream as L) = l_local_address L"
  "l_local_target (fold delete_stream as L) = l_local_target L"
  "node_status (fold delete_stream as L) = node_status L"
  "transport_type (fold delete_stream as L) = transport_type L"
  by (induction as arbitrary: L) (simp_all add: delete_stream_def split: option.split)

subsection \<open>Properties\<close>

lemma listener_wf_inj:
  assumes "listener_wf L"
  shows "hm_get a (streams L) = Some r \<Longrightarrow> hm_get b (streams L) = Some r \<Longrightarrow> a = b"
  using assms unfolding listener_wf_def by (metis option.inject)

lemma send_ping_Return:
  assumes "multiaddr_law x"
  shows "\<exists>js. send_ping x L = Return js"
proof (cases "\<exists>a t. l_local_address L = Some a \<and> fst (l_local_target L) = Some t")
  case True
  then obtain a t where at: "l_local_address L = Some a" "fst (l_local_target L) = Some t" by blast
  obtain b where "encode_message x 0 0 0 a (ascii ''PING'' @ encode_protobuf x
      (public_key x (l_my_keypair L))) (l_my_keypair L) = Return b"
    using encode_message_Return [OF assms] by blast
  with at show ?thesis by (simp add: send_ping_def)
next
  case False
  then show ?thesis by (auto simp: send_ping_def split: option.split)
qed

lemma heartbeat_listener_tail:
  assumes "multiaddr_law x" and "heartbeat_listener x api clk has_api tt L = (res, L', calls)"
    and "heartbeat_streams x api clk (hm_values (streams L)) L = (Return (del, sends), L0, c)"
  shows "no_panic res \<and> streams L' = streams (fold delete_stream del L0) \<and>
    store L' = store (fold delete_stream del L0) \<and> (\<forall>js. res = Return js \<longrightarrow> set sends \<subseteq> set js) \<and>
    calls = c"
proof -
  obtain js where ping: "\<And>L. send_ping x L = Return (js L)"
    using send_ping_Return [OF assms(1)] by metis
  show ?thesis
    using assms(2,3)
    by (auto simp: heartbeat_listener_def act_defs ping update_target_def Let_def
        split: prod.splits VeilidTransportType.splits if_splits option.splits)
qed

lemma heartbeat_listener_eval:
  assumes law: "multiaddr_law x" and wf: "listener_wf L" and q: "queues_wf L"
    and hb: "heartbeat_listener x api clk has_api tt L = (res, L', calls)"
  defines "rs \<equiv> hm_values (streams L)"
  defines "del \<equiv> concat (map (\<lambda>r. heartbeat_expired (instant_now clk) (the (stream_at r L))) rs)"
  defines "L1 \<equiv> fold delete_stream del
      (fold (\<lambda>r. on_stream r (heartbeat_tick x api (instant_now clk))) rs L)"
  shows "no_panic res" and "streams L' = streams L1" and "stream_at r L' = stream_at r L1"
    and "\<forall>js. res = Return js \<longrightarrow> set (concat (map (\<lambda>r. heartbeat_jobs (instant_now clk) r
      (the (stream_at r L))) rs)) \<subseteq> set js"
    and "calls = concat (map (\<lambda>r. heartbeat_calls x api (instant_now clk) (the (stream_at r L))) rs)"
proof -
  have refs: "r \<in> set rs \<longleftrightarrow> (\<exists>a. hm_get a (streams L) = Some r)" for r
    using wf by (simp add: rs_def hm_values_iff listener_wf_def)
  have "\<forall>r \<in> set rs. stream_at r L \<noteq> None"
  proof
    fix r assume "r \<in> set rs"
    then obtain a where "hm_get a (streams L) = Some r" unfolding refs by blast
    from listener_wf_lookup [OF wf this] show "stream_at r L \<noteq> None" by auto
  qed
  note c = heartbeat_streams_eval [OF law distinct_map_refs [OF wf, folded rs_def] this q,
      of api clk, folded del_def]
  from heartbeat_listener_tail [OF law hb c [unfolded rs_def]]
  show "no_panic res" and "streams L' = streams L1" and "stream_at r L' = stream_at r L1"
    and "\<forall>js. res = Return js \<longrightarrow> set (concat (map (\<lambda>r. heartbeat_jobs (instant_now clk) r
      (the (stream_at r L))) rs)) \<subseteq> set js"
    and "calls = concat (map (\<lambda>r. heartbeat_calls x api (instant_now clk) (the (stream_at r L))) rs)"
    unfolding L1_def rs_def by (simp_all add: stream_at_def)
qed

text \<open>A heartbeat does not panic: no message is too long, no stream of the map is missing.\<close>

lemma heartbeat_returns:
  assumes "multiaddr_law x" and "\<forall>L. t_listener T = Some L \<longrightarrow> listener_wf L \<and> queues_wf L"
  shows "no_panic (fst (heartbeat x api clk T))"
proof (cases "t_listener T")
  case None
  then show ?thesis by (simp add: heartbeat_def)
next
  case (Some L)
  obtain r L' calls where hb: "heartbeat_listener x api clk (t_api T) (t_transport_type T) L =
      (r, L', calls)" by (cases "heartbeat_listener x api clk (t_api T) (t_transport_type T) L") auto
  have "no_panic r"
    using heartbeat_listener_eval(1) [OF assms(1) _ _ hb] assms(2) Some by blast
  with Some hb show ?thesis by (simp add: heartbeat_def)
qed

text \<open>Which addresses a heartbeat removes, and what it leaves of the stream of an address.\<close>

lemma expired_not_active: "is_expired now s \<Longrightarrow> \<not> is_active now s"
  by (auto simp: is_expired_def is_active_def split: if_splits)

lemma heartbeat_refs:
  assumes "listener_wf L"
  shows "r \<in> set (hm_values (streams L)) \<longleftrightarrow> (\<exists>a. hm_get a (streams L) = Some r)"
  using assms by (simp add: hm_values_iff listener_wf_def)

lemma heartbeat_deleted:
  assumes wf: "listener_wf L" and a: "hm_get a (streams L) = Some r" "stream_at r L = Some s"
  shows "a \<in> set (concat (map (\<lambda>r. heartbeat_expired now (the (stream_at r L))) (hm_values (streams L)))) \<longleftrightarrow>
    is_expired now s"
proof
  assume "a \<in> set (concat (map (\<lambda>r. heartbeat_expired now (the (stream_at r L))) (hm_values (streams L))))"
  then obtain r' a' where r': "a \<in> set (heartbeat_expired now (the (stream_at r' L)))"
    "hm_get a' (streams L) = Some r'" by (auto simp: heartbeat_refs [OF wf])
  then have "a' = a" using listener_wf_lookup [OF wf r'(2)]
    by (auto simp: heartbeat_expired_def split: if_splits)
  with a r' show "is_expired now s" by (auto simp: heartbeat_expired_def split: if_splits)
next
  assume "is_expired now s"
  then have "a \<in> set (heartbeat_expired now s)"
    using listener_wf_lookup [OF wf a(1)] a(2) expired_not_active by (auto simp: heartbeat_expired_def)
  moreover have "r \<in> set (hm_values (streams L))" using a(1) heartbeat_refs [OF wf] by blast
  ultimately show "a \<in> set (concat (map (\<lambda>r. heartbeat_expired now (the (stream_at r L))) (hm_values (streams L))))"
    using a(2) by force
qed

text \<open>
  C12: What a heartbeat does to the stream of an address. An expired stream, and no other, is
  taken out of the listener's map, and its reader is woken. An active stream has all its
  outbound bytes cut into messages, and the call sends its due messages, and its status if
  one is due; a pending one is announced again. The calls of a heartbeat are those of the
  streams in the map and no others.
\<close>

theorem heartbeat_streams_effect:
  assumes "multiaddr_law x" and "listener_wf L" and "queues_wf L"
    and "heartbeat_listener x api clk has_api tt L = (Return js, L', calls)"
    and "lookup_stream a L = Some (r, s)"
  shows "lookup_stream a L' = (if is_expired (instant_now clk) s then None
      else Some (r, heartbeat_tick x api (instant_now clk) s)) \<and>
    (is_expired (instant_now clk) s \<longrightarrow> stream_at r L' = Some (wake_to_read s)) \<and>
    (is_active (instant_now clk) s \<longrightarrow> outbound_stream (the (stream_at r L')) = [] \<and>
      (\<exists>st sent. send_status_if_stale x api (instant_now clk) s = Return st \<and>
         send_messages x api (instant_now clk) (generate_messages s) =
           (Return sent, the (stream_at r L')) \<and>
         set st \<union> set sent \<subseteq> set calls)) \<and>
    calls = concat (map (\<lambda>r. heartbeat_calls x api (instant_now clk) (the (stream_at r L)))
      (hm_values (streams L))) \<and>
    (status s = Dial \<and> \<not> is_expired (instant_now clk) s \<longrightarrow> SendDial r \<in> set js) \<and>
    (status s = Listen \<and> \<not> is_expired (instant_now clk) s \<longrightarrow> SendListen r \<in> set js)"
proof -
  let ?now = "instant_now clk" and ?rs = "hm_values (streams L)"
  let ?del = "concat (map (\<lambda>r. heartbeat_expired ?now (the (stream_at r L))) ?rs)"
  let ?L1 = "fold (\<lambda>r. on_stream r (heartbeat_tick x api ?now)) ?rs L"
  note ev = heartbeat_listener_eval [OF assms(1-4)]
  have a: "hm_get a (streams L) = Some r" "stream_at r L = Some s"
    using lookup_streamD [OF assms(5)] by simp_all
  have r: "r \<in> set ?rs" using a heartbeat_refs [OF assms(2)] by blast
  note del = heartbeat_deleted [OF assms(2) a, of ?now]
  have at1: "stream_at r ?L1 = Some (heartbeat_tick x api ?now s)"
    using r a(2) by (simp add: fold_on_stream_at [OF distinct_map_refs [OF assms(2)]])
  have map': "hm_get a (streams L') = (if is_expired ?now s then None else Some r)"
    unfolding ev(2) fold_delete_streams del using a(1) by simp
  have inj: "\<forall>a b r. hm_get a (streams ?L1) = Some r \<longrightarrow> hm_get b (streams ?L1) = Some r \<longrightarrow> a = b"
    using listener_wf_inj [OF assms(2)] by simp
  have "(\<exists>a \<in> set ?del. hm_get a (streams ?L1) = Some r) \<longleftrightarrow> is_expired ?now s"
    using del a(1) inj by (metis fold_on_stream_frame(1))
  then have store': "stream_at r L' = (if is_expired ?now s
      then Some (wake_to_read (heartbeat_tick x api ?now s)) else Some (heartbeat_tick x api ?now s))"
    unfolding ev(3) fold_delete_store [OF inj] at1 by simp
  have tick: "is_expired ?now s \<Longrightarrow> heartbeat_tick x api ?now s = s"
    "is_active ?now s \<Longrightarrow> outbound_stream (heartbeat_tick x api ?now s) = []"
    using expired_not_active by (simp_all add: heartbeat_tick_def send_messages_def Let_def)
  have "set (heartbeat_jobs ?now r s) \<subseteq> set js"
    using ev(4) r a(2) by (fastforce simp: subset_iff)
  then have jobs: "status s = Dial \<and> \<not> is_expired ?now s \<longrightarrow> SendDial r \<in> set js"
    "status s = Listen \<and> \<not> is_expired ?now s \<longrightarrow> SendListen r \<in> set js"
    by (auto simp: heartbeat_jobs_def is_active_def)
  have sent: "\<exists>st sent. send_status_if_stale x api ?now s = Return st \<and>
      send_messages x api ?now (generate_messages s) = (Return sent, heartbeat_tick x api ?now s) \<and>
      set st \<union> set sent \<subseteq> set calls" if act: "is_active ?now s"
    using heartbeat_sends [OF assms(1) act] assms(3) a(2) r ev(5)
    by (fastforce simp: queues_wf_def)
  show ?thesis
    using map' store' tick jobs expired_not_active sent ev(5) by (auto simp: lookup_stream_def)
qed

text \<open>A listener with one stream, and a clock at which that stream has expired.\<close>

definition busy_listener :: Listener where
  "busy_listener = add_stream (sample_address 1) (sample_stream 2 1)
     (listener_new UnsafeTransport 1 node_status_new (Keypair [2]))"

definition late_clock :: clock where
  "late_clock = \<lparr>instant_now = secs 30, utc_now = secs 30, unix_secs = 31\<rparr>"

lemma busy_listener_ok:
  "listener_wf busy_listener" "queues_wf busy_listener"
  "lookup_stream (sample_address 1) busy_listener = Some (0, sample_stream 2 1)"
proof -
  let ?L = "listener_new UnsafeTransport 1 node_status_new (Keypair [2])"
  have ra: "remote_address (sample_stream 2 1) = sample_address 1"
    by (simp add: sample_stream_def stream_defs)
  show "listener_wf busy_listener"
    unfolding busy_listener_def by (rule listener_wf_add_stream [OF listener_wf_new ra])
  show "queues_wf busy_listener"
  proof -
    have "stream_at r ?L = None" for r by (simp add: listener_new_def stream_at_def)
    then show ?thesis
      by (auto simp: busy_listener_def queues_wf_def add_stream_stream_at split: if_splits)
  qed
  show "lookup_stream (sample_address 1) busy_listener = Some (0, sample_stream 2 1)"
    using add_stream_lookup [OF listener_wf_new, of "sample_address 1"]
    by (simp add: busy_listener_def) (simp add: listener_new_def)
qed

lemma heartbeat_streams_effect_witness:
  "\<exists>js L' calls. heartbeat_listener sample_ext sample_api late_clock True UnsafeTransport busy_listener =
     (Return js, L', calls) \<and> lookup_stream (sample_address 1) L' = None"
proof -
  obtain r L' calls where hb: "heartbeat_listener sample_ext sample_api late_clock True
      UnsafeTransport busy_listener = (r, L', calls)"
    by (cases "heartbeat_listener sample_ext sample_api late_clock True
      UnsafeTransport busy_listener") auto
  from heartbeat_listener_eval(1) [OF sample_multiaddr_law busy_listener_ok(1,2) hb]
  obtain js where r: "r = Return js" by (cases r) auto
  have "is_expired (instant_now late_clock) (sample_stream 2 1)"
    by (simp add: is_expired_def heard_recently_def late_clock_def secs_def)
  with heartbeat_streams_effect [OF sample_multiaddr_law busy_listener_ok(1,2)
      hb [unfolded r] busy_listener_ok(3)]
  show ?thesis using hb r by auto
qed

lemma dial_replaces_stream_witness:
  "\<exists>f. dial sample_ext (map (\<lambda>c. of_nat (of_char c)) (address_text sample_ext (sample_address 1)))
     ((transport_new True (Keypair [2]) UnsafeTransport)\<lparr>t_api := True,
        t_listener := Some (busy_listener\<lparr>l_local_address := Some (sample_address 2)\<rparr>)\<rparr>) = (Inr f, [])"
proof -
  let ?L = "busy_listener\<lparr>l_local_address := Some (sample_address 2)\<rparr>"
  let ?T = "(transport_new True (Keypair [2]) UnsafeTransport)\<lparr>t_api := True, t_listener := Some ?L\<rparr>"
  let ?m = "map (\<lambda>c. of_nat (of_char c)) (address_text sample_ext (sample_address 1))"
  have "lookup_stream a ?L = lookup_stream a busy_listener" for a
    by (simp add: lookup_stream_def stream_at_def cong: option.case_cong)
  then have L: "listener_wf ?L" "lookup_stream (sample_address 1) ?L = Some (0, sample_stream 2 1)"
    using busy_listener_ok by (simp_all add: listener_wf_def)
  have "try_from_multiaddr sample_ext ?m = Inr (sample_address 1)"
    unfolding try_from_multiaddr_def sample_ext_simps text_of_bytes
    by (subst try_from_string_address_text [OF sample_key_text_law])
      (simp_all add: sample_address_def)
  from dial_replaces_stream [OF L(1) _ _ this _ L(2), of ?T "sample_address 2"] show ?thesis by auto
qed

end
