(* ===== verification/Packets.thy ===== *)
theory Packets
  imports Delivery_Safety Heartbeat
begin

text \<open>
  What the listener (\<open>src/src/listener.rs\<close>, \<open>convert_update\<close>) makes of a message, case by case:
  the packets of an established stream act on it as in the two-sided system of \<open>Delivery\<close>,
  other packets are ignored, and, with the node up and the clock after 1970, nothing but an
  undecodable address makes a conversion panic.
  \<open>act_runs\<close> is the calculus for running the listener's actions.
\<close>

subsection \<open>Packets of an established stream\<close>

lemma handle_packet_stream:
  assumes "lookup_stream a L = Some (r, s)" and "l_local_address L = Some laddr"
    and "get_remote_stream_id s \<noteq> 0"
  shows "handle_packet x api clk (del, k, sid, a, d, sg) L =
    handle_stream x api clk laddr sid a (verify_signature x (remote_public_key s) d sg) del k d
      (l_my_keypair L) (l_id L) r L"
  using assms by (simp add: handle_packet_def Let_def)

lemma convert_message:
  assumes "decode_message x w = Return (Inr pkt)"
  shows "convert_update x api clk (UpdateAppMessage w) L = handle_packet x api clk pkt L"
  using assms by (simp add: convert_update_def handle_app_message_def)

text \<open>
  C7: A status or data packet of an established stream does in the listener exactly what the
  two-sided system does with it: it changes the stream under the sender's address by
  \<open>link_receive\<close>, no other stream and nothing else, sends nothing and reports no event.
\<close>

theorem established_packet:
  assumes "decode_message x w = Return (Inr (del, k, sid, a, d, sg))"
    and "lookup_stream a L = Some (r, s)" and "l_local_address L = Some laddr"
    and "status s = Active \<or> status s = Listen" and "get_remote_stream_id s = sid" and "sid \<noteq> 0"
    and "message_type d = DataMsg \<or> message_type d = StatusMsg"
  shows "convert_update x api clk (UpdateAppMessage w) L =
    (Return Pending, set_stream r (link_receive x (instant_now clk) (del, k, sid, a, d, sg) s) L, [])"
proof -
  have r: "stream_at r L = Some s" using lookup_streamD [OF assms(2)] by simp
  have same: "set_stream r s L = L" using on_stream_same [OF r, of id] by (simp add: on_stream_at [OF r])
  show ?thesis
    using assms(4-7) r same
    by (auto simp: convert_message [OF assms(1)] handle_packet_stream [OF assms(2,3)] handle_stream_def
        with_stream_def handle_listen_def handle_active_def link_receive_def act_defs on_stream_at
        active_data_def)
qed

lemma sample_data_type: "message_type (frame sample_data) = DataMsg"
  by (simp add: message_type_bytes sample_frame ascii_def of_char_def)

text \<open>A listener with one established stream, to the peer of \<open>Sample_Run\<close>.\<close>

definition peer_listener :: Listener where
  "peer_listener = (listener_new UnsafeTransport 0 node_status_new (Keypair [2]))
     \<lparr>l_local_address := Some (sample_address 2), streams := [(sample_address 1, 0)],
      store := [(0, sample_stream 2 1)], next_ref := 1\<rparr>"

lemma peer_listener_eval:
  "l_local_address peer_listener = Some (sample_address 2)"
  "lookup_stream (sample_address 1) peer_listener = Some (0, sample_stream 2 1)"
  "get_remote_stream_id (sample_stream 2 1) = 1"
  by (simp_all add: peer_listener_def listener_new_def lookup_stream_def stream_at_def hm_get_def
      sample_stream_def stream_defs)

lemma established_packet_witness:
  "convert_update sample_ext sample_api sample_clock (UpdateAppMessage sample_wire) peer_listener =
     (Return Pending, set_stream 0 sample_received peer_listener, [])"
  using established_packet [OF sample_decode_eval [unfolded sample_packet_def] peer_listener_eval(2,1)]
  by (simp add: peer_listener_eval sample_data_type sample_received_def sample_packet_def sample_clock_def)

subsection \<open>Packets that are ignored\<close>

text \<open>
  C14: What a peer cannot do. A packet with an older stream id than the stream's, and anything
  but \<open>DIAL\<close> and \<open>PING\<close> from an address without a stream, leave the listener exactly as it was,
  send nothing and report nothing. So do unsigned data, but for one thing: while the remote
  stream id is not yet known (0), even unsigned data set it.
\<close>

theorem ignored_packets:
  assumes "decode_message x w = Return (Inr (del, k, sid, a, d, sg))"
    and "l_local_address L = Some laddr"
  shows "(\<forall>r s. lookup_stream a L = Some (r, s) \<and> sid < get_remote_stream_id s \<longrightarrow>
      convert_update x api clk (UpdateAppMessage w) L = (Return Pending, L, [])) \<and>
    (\<forall>r s. lookup_stream a L = Some (r, s) \<and> message_type d = DataMsg \<and>
        \<not> verify_signature x (remote_public_key s) d sg \<longrightarrow>
      convert_update x api clk (UpdateAppMessage w) L = (Return Pending,
        if get_remote_stream_id s = 0 then set_stream r (update_remote_stream_id sid s) L else L, [])) \<and>
    (lookup_stream a L = None \<and> message_type d \<notin> {DialMsg, PingMsg} \<longrightarrow>
      convert_update x api clk (UpdateAppMessage w) L = (Return Pending, L, []))"
proof (intro conjI allI impI)
  note conv = convert_message [OF assms(1)]
  fix r s
  { assume s: "lookup_stream a L = Some (r, s) \<and> sid < get_remote_stream_id s"
    then have "get_remote_stream_id s \<noteq> 0" "stream_at r L = Some s"
      using lookup_streamD [of a L r s] by (auto simp: word_less_nat_alt)
    with s show "convert_update x api clk (UpdateAppMessage w) L = (Return Pending, L, [])"
      by (simp add: conv handle_packet_stream [OF _ assms(2)] handle_stream_def with_stream_def act_defs) }
  { assume s: "lookup_stream a L = Some (r, s) \<and> message_type d = DataMsg \<and>
        \<not> verify_signature x (remote_public_key s) d sg"
    then have r: "stream_at r L = Some s" using lookup_streamD [of a L r s] by simp
    show "convert_update x api clk (UpdateAppMessage w) L = (Return Pending,
        if get_remote_stream_id s = 0 then set_stream r (update_remote_stream_id sid s) L else L, [])"
    proof (cases "get_remote_stream_id s = 0")
      case False
      with s r show ?thesis
        using on_stream_same [OF r]
        by (cases "status s")
          (simp_all add: conv handle_packet_stream [OF _ assms(2)] handle_stream_def with_stream_def act_defs
            handle_dial_def handle_listen_def handle_active_def active_data_def)
    next
      case True
      let ?L = "set_stream r (update_remote_stream_id sid s) L"
      have r': "stream_at r ?L = Some (update_remote_stream_id sid s)" by simp
      have "handle_packet x api clk (del, k, sid, a, d, sg) L =
          handle_stream x api clk laddr sid a (verify_signature x (remote_public_key s) d sg) del k d
            (l_my_keypair L) (l_id L) r ?L"
        using s True assms(2) by (simp add: handle_packet_def Let_def on_stream_at [OF r])
      with s True r' show ?thesis
        using on_stream_same [OF r']
        by (cases "status s")
          (simp_all add: conv handle_stream_def with_stream_def act_defs get_remote_stream_id_def
            update_remote_stream_id_def handle_dial_def handle_listen_def handle_active_def active_data_def)
    qed }
  { assume "lookup_stream a L = None \<and> message_type d \<notin> {DialMsg, PingMsg}"
    then show "convert_update x api clk (UpdateAppMessage w) L = (Return Pending, L, [])"
      using assms(2)
      by (cases "message_type d")
        (simp_all add: conv handle_packet_def handle_no_stream_def act_defs) }
qed

lemma ignored_packets_witness:
  "convert_update sample_ext sample_api sample_clock (UpdateAppMessage sample_wire)
     (peer_listener\<lparr>streams := []\<rparr>) = (Return Pending, peer_listener\<lparr>streams := []\<rparr>, [])"
proof -
  let ?L = "peer_listener\<lparr>streams := []\<rparr>"
  have "l_local_address ?L = Some (sample_address 2)" by (simp add: peer_listener_eval)
  moreover have "lookup_stream (sample_address 1) ?L = None" by (simp add: lookup_stream_def)
  ultimately show ?thesis
    using ignored_packets [OF sample_decode_eval [unfolded sample_packet_def], of ?L]
    by (simp add: sample_data_type)
qed

subsection \<open>Acknowledgements are not authenticated\<close>

text \<open>
  C13: A STATUS packet acknowledges without any check of its signature: whoever knows the two
  addresses and the stream id can make an active stream forget every queued message up to any
  number it names, however little of it was received.
\<close>

theorem unsigned_status_acknowledges:
  assumes "decode_message x w = Return (Inr (del, k, sid, a, d, sg))"
    and "lookup_stream a L = Some (r, s)" and "l_local_address L = Some laddr"
    and "status s = Active" and "get_remote_stream_id s \<noteq> 0" and "get_remote_stream_id s \<le> sid"
    and "message_type d = StatusMsg" and "hm_wf (outbound_message_queue s)"
  shows "\<exists>s'. convert_update x api clk (UpdateAppMessage w) L = (Return Pending, set_stream r s' L, []) \<and>
    get_outbound_delivered_seq s' = del \<and>
    (\<forall>j. hm_get j (outbound_message_queue s') =
       (if del < j then hm_get j (outbound_message_queue s) else None))"
proof -
  have r: "stream_at r L = Some s" using lookup_streamD [OF assms(2)] by simp
  have "convert_update x api clk (UpdateAppMessage w) L =
      (Return Pending, set_stream r (active_status del s) L, [])"
    using assms(4,7) r leD [OF assms(6)]
    by (simp add: convert_message [OF assms(1)] handle_packet_stream [OF assms(2,3,5)] handle_stream_def
        with_stream_def handle_active_def act_defs on_stream_at)
  moreover have "get_outbound_delivered_seq (active_status del s) = del"
    by (simp add: active_status_def remove_sent_messages_from_queue_def stream_defs Let_def)
  moreover have "hm_get j (outbound_message_queue (active_status del s)) =
      (if del < j then hm_get j (outbound_message_queue s) else None)" for j
    by (simp add: active_status_def remove_sent_messages_from_queue_def stream_defs Let_def
        hm.get_retain [OF assms(8)] split: option.split)
  ultimately show ?thesis by blast
qed

text \<open>A forged STATUS empties the queue of the sender of \<open>Sample_Run\<close>.\<close>

definition forged_status :: Payload where
  "forged_status = \<lparr>pl_received_seq = - 1, pl_msg_seq = 0, pl_stream_id = 1, pl_signature = [],
     pl_address = address_text sample_ext (sample_address 2), pl_data = ascii ''STATUS''\<rparr>"

definition sender_listener :: Listener where
  "sender_listener = (listener_new UnsafeTransport 0 node_status_new (Keypair [1]))
     \<lparr>l_local_address := Some (sample_address 1), streams := [(sample_address 2, 0)],
      store := [(0, sample_generated)], next_ref := 1\<rparr>"

lemma unsigned_status_acknowledges_witness:
  "hm_get 1 (outbound_message_queue sample_generated) \<noteq> None \<and>
   (\<exists>s'. convert_update sample_ext sample_api sample_clock (UpdateAppMessage (sample_encode forged_status))
      sender_listener = (Return Pending, set_stream 0 s' sender_listener, []) \<and>
      hm_get 1 (outbound_message_queue s') = None)"
proof -
  have dec: "decode_message sample_ext (sample_encode forged_status) =
      Return (Inr (- 1, 0, 1, sample_address 2, ascii ''STATUS'', []))"
    using try_from_string_address_text [OF sample_key_text_law, of "sample_address 2"]
    by (simp add: decode_message_def sample_payload forged_status_def sample_address_def)
  have L: "l_local_address sender_listener = Some (sample_address 1)"
    "lookup_stream (sample_address 2) sender_listener = Some (0, sample_generated)"
    by (simp_all add: sender_listener_def lookup_stream_def stream_at_def hm_get_def)
  have s: "status sample_generated = Active" "get_remote_stream_id sample_generated = 1"
    "hm_wf (outbound_message_queue sample_generated)"
    "hm_get 1 (outbound_message_queue sample_generated) \<noteq> None"
    by (simp_all add: sample_generated_eval sample_written_eval get_remote_stream_id_def sample_stream_def
        stream_defs hm_wf_def hm_get_def)
  have "message_type (ascii ''STATUS'') = StatusMsg" by (rule status_text_type)
  from unsigned_status_acknowledges [OF dec L(2,1) s(1) _ _ this s(3), of sample_api sample_clock] s
  show ?thesis by auto
qed

subsection \<open>Conversions that run to their end\<close>

text \<open>A handler that does not panic from a state satisfying \<open>P\<close>, and what then holds.\<close>

definition act_runs :: "(Listener \<Rightarrow> bool) \<Rightarrow> 'a act \<Rightarrow> ('a \<Rightarrow> Listener \<Rightarrow> bool) \<Rightarrow> bool" where
  "act_runs P m Q \<longleftrightarrow> (\<forall>L. P L \<longrightarrow> (\<exists>a L' calls. m L = (Return a, L', calls) \<and> Q a L'))"

named_theorems runs \<open>act_runs rules that keep a predicate\<close>

lemma runs_return [runs]: "act_runs P (act_return a) (\<lambda>_. P)"
  by (simp add: act_runs_def act_return_def)

lemma runs_lift [runs]: "no_panic r \<Longrightarrow> act_runs P (act_lift r) (\<lambda>_. P)"
  by (auto simp: act_runs_def act_lift_def no_panic_iff)

lemma runs_calls [runs]: "no_panic r \<Longrightarrow> act_runs P (act_calls r) (\<lambda>_. P)"
  by (auto simp: act_runs_def act_calls_def no_panic_iff)

lemma runs_modify [runs]: "(\<And>L. P L \<Longrightarrow> P (f L)) \<Longrightarrow> act_runs P (act_modify f) (\<lambda>_. P)"
  by (simp add: act_runs_def act_modify_def)

lemma runs_then:
  assumes "act_runs P m R" and "\<And>a. act_runs (R a) (f a) Q"
  shows "act_runs P (act_then m f) Q"
  using assms unfolding act_runs_def act_then_def by fastforce

lemma runs_seq [runs]:
  assumes "act_runs P m (\<lambda>_. P)" and "\<And>a. act_runs P (f a) (\<lambda>_. P)"
  shows "act_runs P (act_then m f) (\<lambda>_. P)"
  by (rule runs_then [OF assms])

lemma runs_weaken: "act_runs P m Q \<Longrightarrow> (\<And>a L. Q a L \<Longrightarrow> Q' a L) \<Longrightarrow> act_runs P m Q'"
  unfolding act_runs_def by blast

lemma runs_strengthen: "act_runs P m Q \<Longrightarrow> (\<And>L. P' L \<Longrightarrow> P L) \<Longrightarrow> act_runs P' m Q"
  unfolding act_runs_def by blast

text \<open>The stream a handler works on is there, and the outbound queues are as they should be.\<close>

definition stream_there :: "nat \<Rightarrow> Listener \<Rightarrow> bool" where
  "stream_there r L \<longleftrightarrow> queues_wf L \<and> stream_at r L \<noteq> None"

lemma runs_on_stream [runs]:
  "(\<And>s. outbound_queue_wf (outbound_message_queue s) \<Longrightarrow>
      outbound_queue_wf (outbound_message_queue (f s))) \<Longrightarrow>
    act_runs (stream_there r) (act_modify (on_stream r f)) (\<lambda>_. stream_there r)"
  by (rule runs_modify) (auto simp: stream_there_def queues_wf_def split: if_splits)

lemma runs_with_stream [runs]:
  assumes "\<And>s. outbound_queue_wf (outbound_message_queue s) \<Longrightarrow> act_runs (stream_there r) (f s) Q"
  shows "act_runs (stream_there r) (with_stream r f) Q"
  unfolding act_runs_def
proof (intro allI impI)
  fix L assume there: "stream_there r L"
  then obtain s where "stream_at r L = Some s" "outbound_queue_wf (outbound_message_queue s)"
    by (auto simp: stream_there_def queues_wf_def)
  with assms [of s] there show "\<exists>a L' calls. with_stream r f L = (Return a, L', calls) \<and> Q a L'"
    by (simp add: act_runs_def with_stream_def)
qed

text \<open>Sending a control message awaits the call; it returns if the routing context does.\<close>

definition node_up :: "veilid_api \<Rightarrow> bool" where
  "node_up api \<longleftrightarrow> (routing_context api \<longrightarrow> with_safety api)"

lemma control_no_panic [runs]:
  assumes "multiaddr_law x" and "node_up api"
  shows "no_panic (send_dial x api s)" and "no_panic (send_listen x api s)"
proof -
  have "no_panic (send_message_to_remote api s m)" for m
    using assms(2) by (auto simp: send_message_to_remote_def node_up_def split: Target.split)
  moreover have "\<exists>b. encode_message x 0 0 (my_stream_id s) (local_address s) d (my_keypair s) = Return b" for d
    by (rule encode_message_Return [OF assms(1)])
  ultimately show "no_panic (send_dial x api s)" "no_panic (send_listen x api s)"
    unfolding send_dial_def send_listen_def Let_def by (metis run_bind.simps(1))+
qed

lemma activate_no_panic [runs]: "multiaddr_law x \<Longrightarrow> no_panic (activate x r s)"
  using to_multiaddr_Return [of x "local_address s"] to_multiaddr_Return [of x "remote_address s"]
  by (auto simp: activate_def)

lemma message_type_length:
  "message_type d = DialMsg \<Longrightarrow> 4 \<le> length d" "message_type d = ListenMsg \<Longrightarrow> 6 \<le> length d"
proof -
  have "n \<le> length d" if "take n d = ascii t" "length t = n" for n t
    using that by (metis ascii_def length_map length_take min.absorb_iff2 min_def)
  then show "message_type d = DialMsg \<Longrightarrow> 4 \<le> length d" "message_type d = ListenMsg \<Longrightarrow> 6 \<le> length d"
    by (auto simp: message_type_bytes split: if_splits)
qed

lemma outbound_queue_simple [simp]:
  "outbound_message_queue (update_remote_public_key pk s) = outbound_message_queue s"
  "outbound_message_queue (update_status st s) = outbound_message_queue s"
  "outbound_message_queue (update_remote_stream_id i s) = outbound_message_queue s"
  "outbound_message_queue (update_inbound_last_timestamp_to_now now s) = outbound_message_queue s"
  by (simp_all add: stream_defs)

lemma outbound_queue_wf_recv:
  "outbound_queue_wf (outbound_message_queue s) \<Longrightarrow>
    outbound_queue_wf (outbound_message_queue (recv_message now del k d s))"
  "outbound_queue_wf (outbound_message_queue s) \<Longrightarrow>
    outbound_queue_wf (outbound_message_queue (active_status del s))"
  by (auto simp: recv_message_def active_status_def recv_inbound_buffer_def Let_def outbound_queue_wf_retain
      remove_sent_messages_from_queue_def stream_defs split: prod.splits)

lemma runs_extract_key [runs]:
  "length tag \<le> length d \<Longrightarrow>
    act_runs (stream_there r) (extract_key x tag d r) (\<lambda>_. stream_there r)"
  unfolding extract_key_def by (auto intro!: runs_on_stream split: option.split)

lemma runs_accept_dial [runs]:
  assumes "multiaddr_law x" "node_up api" "4 \<le> length d"
    and "\<And>s. outbound_queue_wf (outbound_message_queue s) \<Longrightarrow>
      outbound_queue_wf (outbound_message_queue (touch s))"
  shows "act_runs (stream_there r) (accept_dial x api clk sid d touch r) (\<lambda>_. stream_there r)"
  unfolding accept_dial_def using assms by (auto intro!: runs)

lemma runs_create_stream:
  assumes "after_epoch clk"
  shows "act_runs queues_wf (create_stream api clk lid laddr raddr sid kp)
     (\<lambda>res L. case res of Inr r \<Rightarrow> stream_there r L | Inl e \<Rightarrow> queues_wf L)"
  unfolding act_runs_def
proof (intro allI impI)
  fix L assume "queues_wf L"
  then have "stream_there (next_ref L) (add_stream raddr (stream_init clk lid laddr raddr t sid kp) L)" for t
    by (auto simp: stream_there_def queues_wf_def add_stream_stream_at)
  with \<open>queues_wf L\<close> show "\<exists>a L' calls. create_stream api clk lid laddr raddr sid kp L = (Return a, L', calls) \<and>
      (case a of Inr r \<Rightarrow> stream_there r L' | Inl e \<Rightarrow> queues_wf L')"
    by (cases "address_to_target api raddr"; cases "fst (address_to_target api raddr)")
      (auto simp: create_stream_def stream_new_def assms)
qed

lemma runs_create_accept:
  assumes clk: "after_epoch clk" and "multiaddr_law x" "node_up api" "4 \<le> length d"
    and "\<And>s. outbound_queue_wf (outbound_message_queue s) \<Longrightarrow>
      outbound_queue_wf (outbound_message_queue (touch s))"
  shows "act_runs queues_wf (act_then (create_stream api clk lid laddr raddr sid kp)
      (\<lambda>res. case res of Inr r \<Rightarrow> accept_dial x api clk sid d touch r | Inl e \<Rightarrow> act_return Pending))
    (\<lambda>_. queues_wf)"
proof (rule runs_then [OF runs_create_stream [OF clk]])
  fix res :: "string + nat"
  show "act_runs (\<lambda>L. case res of Inr r \<Rightarrow> stream_there r L | Inl e \<Rightarrow> queues_wf L)
      (case res of Inr r \<Rightarrow> accept_dial x api clk sid d touch r | Inl e \<Rightarrow> act_return Pending)
      (\<lambda>_. queues_wf)"
  proof (cases res)
    case (Inr r)
    have "act_runs (stream_there r) (accept_dial x api clk sid d touch r) (\<lambda>_. queues_wf)"
      by (rule runs_weaken [OF runs_accept_dial [OF assms(2-5)]]) (simp_all add: stream_there_def)
    with Inr show ?thesis by simp
  qed (simp add: runs_return)
qed

lemma runs_flush [runs]:
  assumes "multiaddr_law x"
  shows "act_runs (stream_there r) (with_stream r (\<lambda>s. case send_messages x api now s of
     (calls, s') \<Rightarrow> act_then (act_modify (set_stream r s')) (\<lambda>_. act_calls calls))) (\<lambda>_. stream_there r)"
proof (rule runs_with_stream)
  fix s :: VeilidStream
  assume wf: "outbound_queue_wf (outbound_message_queue s)"
  obtain calls s' where sm: "send_messages x api now s = (calls, s')" by fastforce
  have "outbound_queue_wf (outbound_message_queue s')"
    using mark_sent_queue_wf [OF wf] by (simp add: send_messages_frame [OF sm])
  moreover have "no_panic calls" using send_messages_no_panic [OF assms wf, of api now] by (simp add: sm)
  ultimately show "act_runs (stream_there r) (case send_messages x api now s of
     (calls, s') \<Rightarrow> act_then (act_modify (set_stream r s')) (\<lambda>_. act_calls calls)) (\<lambda>_. stream_there r)"
    by (auto simp: sm stream_there_def queues_wf_def intro!: runs)
qed

lemma runs_handle_stream:
  assumes laws: "after_epoch clk" "multiaddr_law x" "node_up api"
  shows "act_runs (stream_there r) (handle_stream x api clk laddr sid raddr sg del k d kp lid r)
    (\<lambda>_. queues_wf)"
  unfolding handle_stream_def
proof (rule runs_with_stream)
  fix s
  have there: "stream_there r L \<Longrightarrow> queues_wf L" for L by (simp add: stream_there_def)
  have dial: "act_runs (stream_there r) (handle_dial x api clk laddr (message_type d) sid raddr d r)
      (\<lambda>_. stream_there r)"
    unfolding handle_dial_def
    using laws message_type_length [of d]
    by (cases "message_type d"; cases "address_cmp x raddr laddr")
      (auto intro!: runs simp: generate_messages_wf)
  have listen: "act_runs (stream_there r) (handle_listen x api clk (message_type d) sid sg del k d r)
      (\<lambda>_. stream_there r)"
    unfolding handle_listen_def using laws
    by (cases "message_type d") (auto intro!: runs simp: outbound_queue_wf_recv)
  have pend: "act_runs (stream_there r) (act_return Pending) (\<lambda>_. queues_wf)"
    by (rule runs_weaken [OF runs_return there])
  have active: "act_runs (stream_there r)
      (handle_active x api clk lid laddr (message_type d) sid raddr sg del k d kp r) (\<lambda>_. queues_wf)"
  proof (cases "message_type d")
    case DialMsg
    have "act_runs (stream_there r) (act_then (create_stream api clk lid laddr raddr sid kp)
        (\<lambda>res. case res of Inr r' \<Rightarrow> accept_dial x api clk sid d (\<lambda>s. s) r' | Inl e \<Rightarrow> act_return Pending))
        (\<lambda>_. queues_wf)"
      by (rule runs_strengthen [OF runs_create_accept [OF laws] there])
        (simp_all add: message_type_length DialMsg)
    with DialMsg pend show ?thesis by (auto simp: handle_active_def intro!: runs_with_stream)
  qed (auto simp: handle_active_def active_data_def outbound_queue_wf_recv
      intro!: pend runs_then [OF runs_on_stream pend])
  show "act_runs (stream_there r) (if get_remote_stream_id s \<noteq> 0 \<and> sid < get_remote_stream_id s
      then act_return Pending
      else (case status s of
          Dial \<Rightarrow> handle_dial x api clk laddr (message_type d) sid raddr d r
        | Listen \<Rightarrow> handle_listen x api clk (message_type d) sid sg del k d r
        | Active \<Rightarrow> handle_active x api clk lid laddr (message_type d) sid raddr sg del k d kp r
        | Expired \<Rightarrow> act_return Pending)) (\<lambda>_. queues_wf)"
    using pend active runs_weaken [OF dial there] runs_weaken [OF listen there]
    by (cases "status s") auto
qed

lemma runs_handle_no_stream:
  assumes laws: "after_epoch clk" "multiaddr_law x" "node_up api"
  shows "act_runs queues_wf (handle_no_stream x api clk lid laddr (message_type d) sid raddr d kp)
    (\<lambda>_. queues_wf)"
proof (cases "message_type d")
  case DialMsg
  then show ?thesis
    using runs_create_accept [OF laws message_type_length(1) [OF DialMsg]]
    by (simp add: handle_no_stream_def)
next
  case PingMsg
  have "queues_wf (L\<lparr>l_local_target := t\<rparr>) = queues_wf L" for L t
    by (simp add: queues_wf_def stream_at_def)
  with PingMsg show ?thesis by (auto simp: handle_no_stream_def intro!: runs)
qed (auto simp: handle_no_stream_def intro!: runs)

lemma runs_handle_packet:
  assumes laws: "after_epoch clk" "multiaddr_law x" "node_up api"
  shows "act_runs (\<lambda>L. listener_wf L \<and> queues_wf L) (handle_packet x api clk pkt) (\<lambda>_. queues_wf)"
  unfolding act_runs_def
proof (intro allI impI)
  fix L assume L: "listener_wf L \<and> queues_wf L"
  obtain del k sid raddr d sg where pkt: "pkt = (del, k, sid, raddr, d, sg)" by (cases pkt) auto
  show "\<exists>a L' calls. handle_packet x api clk pkt L = (Return a, L', calls) \<and> queues_wf L'"
  proof (cases "lookup_stream raddr L")
    case None
    from runs_handle_no_stream [OF laws] L None show ?thesis
      by (cases "l_local_address L") (auto simp: act_runs_def handle_packet_def pkt Let_def)
  next
    case (Some rs)
    obtain r s where rs: "rs = (r, s)" by fastforce
    let ?L1 = "if get_remote_stream_id s = 0 then on_stream r (update_remote_stream_id sid) L else L"
    have r: "stream_at r L = Some s" using lookup_streamD [of raddr L r s] Some rs by simp
    then have "stream_there r ?L1"
      using L by (auto simp: stream_there_def queues_wf_def)
    with runs_handle_stream [OF laws] Some rs show ?thesis
      by (cases "l_local_address ?L1")
        (auto simp: act_runs_def handle_packet_def pkt Let_def stream_there_def)
  qed
qed

lemma runs_try_online:
  assumes "multiaddr_law x"
  shows "\<exists>a L' calls. try_online x api clk tt L = (Return a, L', calls)"
proof (cases tt)
  case UnsafeTransport
  show ?thesis
  proof (cases "ns_my_node_id (node_status L)")
    case (Some n)
    obtain m where "to_multiaddr x (new_unsafe n) = Return m"
      using to_multiaddr_Return [OF assms] by blast
    with UnsafeTransport Some show ?thesis by (simp add: try_online_def act_defs)
  qed (simp add: try_online_def UnsafeTransport)
next
  case SafeTransport
  obtain res calls where ns: "new_safe api (utc_now clk) = (res, calls)" by fastforce
  show ?thesis
  proof (cases res)
    case (Inr laddr)
    obtain m where "to_multiaddr x laddr = Return m"
      using to_multiaddr_Return [OF assms] by blast
    with SafeTransport ns Inr show ?thesis
      by (simp add: try_online_def Let_def split: prod.split)
  qed (simp add: try_online_def SafeTransport ns)
qed

text \<open>
  From a well-formed listener, with the node's routing context usable and a clock after 1970, only a payload whose
  address text is no address makes a conversion panic.
\<close>

lemma convert_update_panics:
  assumes "after_epoch clk" and "multiaddr_law x" and "node_up api" and "listener_wf L" and "queues_wf L"
  shows "no_panic (fst (convert_update x api clk u L)) \<longleftrightarrow>
    \<not> (\<exists>w p e. u = UpdateAppMessage w \<and> payload_decode x w = Inr p \<and>
         try_from_string x (pl_address p) = Inl e)"
proof (cases u)
  case (UpdateAppMessage w)
  have "no_panic (fst (handle_packet x api clk pkt L))" for pkt
    using runs_handle_packet [OF assms(1-3)] assms(4,5)
    unfolding act_runs_def by (metis fst_conv no_panic.simps(1))
  then show ?thesis
    by (auto simp: UpdateAppMessage convert_update_def handle_app_message_def decode_message_def act_defs
        split: sum.splits)
next
  case (UpdateAttachment st ready)
  obtain L1 b where na: "note_attachment st ready L = (L1, b)" by fastforce
  obtain a L2 calls where "(if b then try_online x api clk (transport_type L1) else act_return None) L1 =
      (Return a, L2, calls)"
    using runs_try_online [OF assms(2), of api clk "transport_type L1" L1] by (cases b) (auto simp: act_return_def)
  then have "no_panic (fst (convert_update x api clk u L))"
    by (cases a) (simp_all add: UpdateAttachment convert_update_def handle_attachment_def na act_defs)
  with UpdateAttachment show ?thesis by simp
qed (auto simp: convert_update_def act_defs handle_route_change_def split: option.split)

end
