(* ===== verification/Handshake.thy ===== *)
theory Handshake
  imports Packets
begin

text \<open>
  The handshake of two nodes, through the code of both: \<open>dial\<close>'s future sends a DIAL, the other
  node's listener accepts it and answers LISTEN, the dialer's listener takes that. It ends in
  the initial state of the two-sided system of \<open>Delivery\<close>. When both dial at once, the order
  of their addresses decides who listens.
\<close>

subsection \<open>Control messages\<close>

text \<open>What a control message carries: its tag and the sender's public key.\<close>

definition control_data :: "ext \<Rightarrow> string \<Rightarrow> VeilidStream \<Rightarrow> bytes" where
  "control_data x tag s = ascii tag @ encode_protobuf x (public_key x (my_keypair s))"

definition control_wire :: "ext \<Rightarrow> string \<Rightarrow> VeilidStream \<Rightarrow> bytes run" where
  "control_wire x tag s =
     encode_message x 0 0 (my_stream_id s) (local_address s) (control_data x tag s) (my_keypair s)"

text \<open>A node that can send.\<close>

definition can_send :: "veilid_api \<Rightarrow> bool" where
  "can_send api \<longleftrightarrow> routing_context api \<and> with_safety api"

lemma send_to_remote_up:
  "can_send api \<Longrightarrow>
     \<exists>sf. send_message_to_remote api s m = Return [AppMessage sf (remote_target s) m]"
  by (cases "remote_target s") (auto simp: send_message_to_remote_def can_send_def)

lemma send_control:
  assumes "multiaddr_law x" and "can_send api"
  shows "\<exists>w sf. control_wire x ''DIAL'' s = Return w \<and>
      send_dial x api s = Return [AppMessage sf (remote_target s) w]"
    and "\<exists>w sf. control_wire x ''LISTEN'' s = Return w \<and>
      send_listen x api s = Return [AppMessage sf (remote_target s) w]"
proof -
  have enc: "\<exists>w. control_wire x tag s = Return w" for tag
    unfolding control_wire_def by (rule encode_message_Return [OF assms(1)])
  show "\<exists>w sf. control_wire x ''DIAL'' s = Return w \<and>
      send_dial x api s = Return [AppMessage sf (remote_target s) w]"
    using enc [of "''DIAL''"] send_to_remote_up [OF assms(2)]
    by (fastforce simp: send_dial_def control_wire_def control_data_def)
  show "\<exists>w sf. control_wire x ''LISTEN'' s = Return w \<and>
      send_listen x api s = Return [AppMessage sf (remote_target s) w]"
    using enc [of "''LISTEN''"] send_to_remote_up [OF assms(2)]
    by (fastforce simp: send_listen_def control_wire_def control_data_def)
qed

lemma control_decodes:
  assumes "wire_laws x" and "vld0_address (local_address s)" and "control_wire x tag s = Return w"
  shows "\<exists>sg. decode_message x w =
    Return (Inr (0, 0, my_stream_id s, public_part (local_address s), control_data x tag s, sg))"
  using wire_decodes [OF assms(1,2) assms(3) [unfolded control_wire_def]] by blast

lemma control_data_tag:
  "message_type (control_data x ''DIAL'' s) = DialMsg"
  "message_type (control_data x ''LISTEN'' s) = ListenMsg"
  by (simp_all add: control_data_def message_type_control)

lemma extract_control_key:
  assumes "public_key_law x" and "stream_at r L = Some s"
  shows "extract_key x tag (control_data x tag t) r L =
    (Return (), set_stream r (update_remote_public_key (public_key x (my_keypair t)) s) L, [])"
proof -
  have "try_decode_protobuf x (encode_protobuf x (public_key x (my_keypair t))) =
      Some (public_key x (my_keypair t))"
    using assms(1) by (simp add: public_key_law_def)
  moreover have "length (ascii tag) = length tag" by (simp add: ascii_def)
  ultimately show ?thesis
    using assms(2) by (simp add: extract_key_def control_data_def act_modify_def on_stream_at)
qed

lemma activate_Return:
  assumes "multiaddr_law x"
  shows "\<exists>la ra. activate x r s = Return (Ready (Some (Incoming (listener_id s)
    (connection_new (local_address s) (remote_target s) r) la ra)))"
proof -
  obtain la ra where "to_multiaddr x (local_address s) = Return la" "to_multiaddr x (remote_address s) = Return ra"
    using to_multiaddr_Return [OF assms] by blast
  then show ?thesis by (simp add: activate_def)
qed

subsection \<open>A DIAL is accepted\<close>

text \<open>The stream an accepted DIAL of \<open>t\<close> leaves.\<close>

definition accepted :: "ext \<Rightarrow> u64 \<Rightarrow> VeilidStream \<Rightarrow> VeilidStream \<Rightarrow> VeilidStream" where
  "accepted x sid t s = update_status Listen (update_remote_stream_id sid
     (update_remote_public_key (public_key x (my_keypair t)) s))"

lemma accept_dial_eval:
  assumes laws: "multiaddr_law x" "public_key_law x" and up: "can_send api"
    and s: "stream_at r L = Some s" and s': "s' = touch (accepted x sid t s)"
  shows "\<exists>w sf la ra. control_wire x ''LISTEN'' s' = Return w \<and>
    accept_dial x api clk sid (control_data x ''DIAL'' t) touch r L =
      (Return (Ready (Some (Incoming (listener_id s')
         (connection_new (local_address s') (remote_target s') r) la ra))),
       set_stream r s' L, [AppMessage sf (remote_target s') w])"
proof -
  obtain w sf where w: "control_wire x ''LISTEN'' s' = Return w"
    "send_listen x api s' = Return [AppMessage sf (remote_target s') w]"
    using send_control(2) [OF laws(1) up] by blast
  obtain la ra where act: "activate x r s' = Return (Ready (Some (Incoming (listener_id s')
      (connection_new (local_address s') (remote_target s') r) la ra)))"
    using activate_Return [OF laws(1)] by blast
  note ek = extract_control_key [OF laws(2) s, of "''DIAL''" t]
  have "accept_dial x api clk sid (control_data x ''DIAL'' t) touch r L =
      (Return (Ready (Some (Incoming (listener_id s')
         (connection_new (local_address s') (remote_target s') r) la ra))),
       set_stream r s' L, [AppMessage sf (remote_target s') w])"
    using w(2) act unfolding s' accepted_def
    by (simp add: accept_dial_def ek act_then_def act_modify_def act_calls_def act_lift_def
        with_stream_def)
  with w(1) show ?thesis by blast
qed

text \<open>A DIAL from an address without a stream.\<close>

lemma dial_from_stranger:
  assumes laws: "wire_laws x" "public_key_law x" and up: "can_send api" and wf: "listener_wf L"
    and t: "vld0_address (local_address t)" "control_wire x ''DIAL'' t = Return w"
    and L: "lookup_stream (public_part (local_address t)) L = None" "l_local_address L = Some laddr"
    and target: "address_to_target api (public_part (local_address t)) = (Some rtarget, calls)"
    and clk: "after_epoch clk"
  shows "\<exists>s w' sf la ra.
    s = update_inbound_last_timestamp_to_now (instant_now clk) (accepted x (my_stream_id t) t
      (stream_init clk (l_id L) laddr (public_part (local_address t)) rtarget (my_stream_id t) (l_my_keypair L))) \<and>
    control_wire x ''LISTEN'' s = Return w' \<and>
    convert_update x api clk (UpdateAppMessage w) L =
      (Return (Ready (Some (Incoming (listener_id s) (connection_new laddr rtarget (next_ref L)) la ra))),
       add_stream (public_part (local_address t)) s L, calls @ [AppMessage sf rtarget w'])"
proof -
  let ?a = "public_part (local_address t)"
  let ?new = "stream_init clk (l_id L) laddr ?a rtarget (my_stream_id t) (l_my_keypair L)"
  let ?touch = "update_inbound_last_timestamp_to_now (instant_now clk)"
  let ?s = "?touch (accepted x (my_stream_id t) t ?new)"
  have ma: "multiaddr_law x" using laws(1) by (simp add: wire_laws_def)
  have "stream_at (next_ref L) (add_stream ?a ?new L) = Some ?new"
    by (simp add: add_stream_stream_at)
  from accept_dial_eval [OF ma laws(2) up this refl, of ?touch "my_stream_id t" t clk] obtain w' sf la ra where
    ad: "control_wire x ''LISTEN'' ?s = Return w'"
    "accept_dial x api clk (my_stream_id t) (control_data x ''DIAL'' t) ?touch (next_ref L) (add_stream ?a ?new L) =
      (Return (Ready (Some (Incoming (listener_id ?s)
         (connection_new (local_address ?s) (remote_target ?s) (next_ref L)) la ra))),
       set_stream (next_ref L) ?s (add_stream ?a ?new L), [AppMessage sf (remote_target ?s) w'])" by blast
  have s: "local_address ?s = laddr" "remote_target ?s = rtarget"
    by (simp_all add: accepted_def stream_defs)
  have set: "set_stream (next_ref L) ?s (add_stream ?a ?new L) = add_stream ?a ?s L"
    by (simp add: set_stream_def add_stream_def hm_insert_twice)
  obtain sg where dec: "decode_message x w =
      Return (Inr (0, 0, my_stream_id t, ?a, control_data x ''DIAL'' t, sg))"
    using control_decodes [OF laws(1) t] by blast
  have "convert_update x api clk (UpdateAppMessage w) L =
      (Return (Ready (Some (Incoming (listener_id ?s) (connection_new laddr rtarget (next_ref L)) la ra))),
       add_stream ?a ?s L, calls @ [AppMessage sf rtarget w'])"
    using L ad(2) target
    by (simp add: convert_message [OF dec] handle_packet_def handle_no_stream_def control_data_tag
        create_stream_def stream_new_def clk act_then_def s set)
  with ad(1) show ?thesis by blast
qed

subsection \<open>A LISTEN is taken\<close>

text \<open>The stream a LISTEN of \<open>t\<close> leaves to a dialer that has written nothing yet.\<close>

definition listened :: "ext \<Rightarrow> instant \<Rightarrow> VeilidStream \<Rightarrow> VeilidStream \<Rightarrow> VeilidStream" where
  "listened x now t s = update_status Active (update_remote_stream_id (my_stream_id t)
     (update_inbound_last_timestamp_to_now now
       (update_remote_public_key (public_key x (my_keypair t))
         (update_remote_stream_id (my_stream_id t) s))))"

lemma generate_nothing: "outbound_stream s = [] \<Longrightarrow> generate_messages s = s"
  by (simp add: generate_messages_def)

lemma send_nothing: "outbound_message_queue s = [] \<Longrightarrow> send_messages x api now s = (Return [], s)"
  by (simp add: send_messages_def messages_to_send_def hm_values_def mark_sent_def Let_def)

lemma listen_to_dialer:
  assumes laws: "wire_laws x" "public_key_law x"
    and t: "vld0_address (local_address t)" "control_wire x ''LISTEN'' t = Return w"
    and L: "lookup_stream (public_part (local_address t)) L = Some (r, s)" "l_local_address L = Some laddr"
    and s: "status s = Dial" "get_remote_stream_id s = 0" "outbound_stream s = []"
      "outbound_message_queue s = []"
  shows "convert_update x api clk (UpdateAppMessage w) L =
    (Return Pending, set_stream r (listened x (instant_now clk) t s) L, [])"
proof -
  let ?a = "public_part (local_address t)" and ?d = "control_data x ''LISTEN'' t"
  let ?sid = "my_stream_id t"
  let ?s1 = "update_remote_stream_id ?sid s"
  have r: "stream_at r L = Some s" using lookup_streamD [OF L(1)] by simp
  obtain sg where dec: "decode_message x w = Return (Inr (0, 0, ?sid, ?a, ?d, sg))"
    using control_decodes [OF laws(1) t] by blast
  have packet: "handle_packet x api clk (0, 0, ?sid, ?a, ?d, sg) L =
      handle_dial x api clk laddr ListenMsg ?sid ?a ?d r (set_stream r ?s1 L)"
    using L s(1,2)
    by (simp add: handle_packet_def handle_stream_def with_stream_def on_stream_at [OF r]
        control_data_tag get_remote_stream_id_def update_remote_stream_id_def)
  have at: "stream_at r (set_stream r ?s1 L) = Some ?s1" by simp
  note ek = extract_control_key [OF laws(2) at, of "''LISTEN''" t]
  have out: "outbound_stream (listened x (instant_now clk) t s) = []"
    "outbound_message_queue (listened x (instant_now clk) t s) = []"
    using s(3,4) by (simp_all add: listened_def stream_defs)
  have "handle_dial x api clk laddr ListenMsg ?sid ?a ?d r (set_stream r ?s1 L) =
      (Return Pending, set_stream r (listened x (instant_now clk) t s) L, [])"
    using generate_nothing [OF out(1)] send_nothing [OF out(2), of x api "instant_now clk"]
    by (simp add: handle_dial_def ek act_then_def act_modify_def act_return_def act_calls_def
        with_stream_def listened_def [symmetric])
  then show ?thesis by (simp add: convert_message [OF dec] packet)
qed

subsection \<open>The handshake\<close>

text \<open>
  C4: The handshake works: a node whose listener is on address \<open>a\<close> dials \<open>b\<close>; the message its
  future sends makes the listener at \<open>b\<close> report an incoming connection and answer; the answer
  makes the dialer's stream active without an event. Both then have a stream for the other's
  public address, know each other's stream id and public key, and together are an initial
  state of the two-sided system whose delivery is proved.
\<close>

theorem handshake_establishes_link:
  fixes apiA apiB :: veilid_api
  assumes "wire_laws x" and "public_key_law x" and "can_send apiA" and "can_send apiB"
    and "listener_wf LA" and "listener_wf LB"
    and "l_local_address LA = Some a" and "vld0_address a"
    and "l_local_address LB = Some b" and "vld0_address b"
    and "lookup_stream (public_part a) LB = None"
    and "address_to_target apiA (public_part b) = (Some tb, callsA)"
    and "address_to_target apiB (public_part a) = (Some ta, callsB)"
    and "after_epoch clkA" and "after_epoch clkB"
  shows "\<exists>c LA1 sfA wA ev LB1 sfB wB LA2 sa r sb.
    dial_task x apiA clkA (DialFuture (public_part b) a lid kA) LA =
      (Return (Inr c), LA1, callsA @ [AppMessage sfA tb wA]) \<and>
    convert_update x apiB clkB (UpdateAppMessage wA) LB =
      (Return (Ready (Some ev)), LB1, callsB @ [AppMessage sfB ta wB]) \<and>
    convert_update x apiA clkA' (UpdateAppMessage wB) LA1 = (Return Pending, LA2, []) \<and>
    lookup_stream (public_part b) LA2 = Some (conn_stream c, sa) \<and>
    lookup_stream (public_part a) LB1 = Some (r, sb) \<and>
    get_remote_stream_id sa = my_stream_id sb \<and> get_remote_stream_id sb = my_stream_id sa \<and>
    link_init x \<lparr>ep = (\<lambda>p. if p then sa else sb), net = (\<lambda>p. {}), written = (\<lambda>p. []),
      chunks = (\<lambda>p. []), consumed = (\<lambda>p. []), link_clock = t\<rparr>"
proof -
  have ma: "multiaddr_law x" using assms(1) by (simp add: wire_laws_def)
  let ?a = "public_part a" and ?b = "public_part b"
  define s0 where "s0 = stream_init clkA lid a ?b tb 0 kA"
  have s0: "status s0 = Dial" "get_remote_stream_id s0 = 0" "outbound_stream s0 = []"
    "outbound_message_queue s0 = []" "local_address s0 = a" "remote_target s0 = tb"
    by (simp_all add: s0_def get_remote_stream_id_def)
  let ?LA1 = "add_stream ?b s0 LA"
  obtain wA sfA where wA: "control_wire x ''DIAL'' s0 = Return wA"
    "send_dial x apiA s0 = Return [AppMessage sfA tb wA]"
    using send_control(1) [OF ma assms(3), of s0] s0(6) by auto
  have dial: "dial_task x apiA clkA (DialFuture ?b a lid kA) LA =
      (Return (Inr (connection_new a tb (next_ref LA))), ?LA1, callsA @ [AppMessage sfA tb wA])"
    using assms(12) wA(2) assms(14) by (simp add: dial_task_def stream_new_def connect_def Let_def s0_def)
  have "vld0_address (local_address s0)" "lookup_stream (public_part (local_address s0)) LB = None"
    "address_to_target apiB (public_part (local_address s0)) = (Some ta, callsB)"
    using assms(8,11,13) s0(5) by simp_all
  from dial_from_stranger [where clk = clkB, OF assms(1,2,4,6) this(1) wA(1) this(2) assms(9) this(3) assms(15)]
  obtain sb wB sfB la ra where sb: "sb = update_inbound_last_timestamp_to_now (instant_now clkB)
      (accepted x (my_stream_id s0) s0
        (stream_init clkB (l_id LB) b ?a ta (my_stream_id s0) (l_my_keypair LB)))"
    and wB: "control_wire x ''LISTEN'' sb = Return wB"
    and acc: "convert_update x apiB clkB (UpdateAppMessage wA) LB =
      (Return (Ready (Some (Incoming (listener_id sb) (connection_new b ta (next_ref LB)) la ra))),
       add_stream ?a sb LB, callsB @ [AppMessage sfB ta wB])"
    unfolding s0(5) by blast
  have b: "local_address sb = b" by (simp add: sb accepted_def stream_defs)
  have vB: "vld0_address (local_address sb)" unfolding b by (rule assms(10))
  have look: "lookup_stream (public_part (local_address sb)) ?LA1 = Some (next_ref LA, s0)"
    unfolding b using assms(5) by (simp add: add_stream_lookup)
  have lA: "l_local_address ?LA1 = Some a" using assms(7) by simp
  define sa where "sa = listened x (instant_now clkA') sb s0"
  have set: "set_stream (next_ref LA) sa ?LA1 = add_stream ?b sa LA"
    by (simp add: set_stream_def add_stream_def hm_insert_twice)
  have listen: "convert_update x apiA clkA' (UpdateAppMessage wB) ?LA1 =
      (Return Pending, add_stream ?b sa LA, [])"
    using listen_to_dialer [OF assms(1,2) vB wB look lA s0(1-4), of apiA clkA']
    by (simp add: sa_def [symmetric] set)
  have init: "link_init x \<lparr>ep = (\<lambda>p. if p then sa else sb), net = (\<lambda>p. {}), written = (\<lambda>p. []),
      chunks = (\<lambda>p. []), consumed = (\<lambda>p. []), link_clock = t\<rparr>"
    using assms(8,10)
    by (simp add: link_init_def fresh_stream_def sa_def sb s0_def listened_def accepted_def stream_defs)
  show ?thesis
  proof (intro exI conjI)
    show "dial_task x apiA clkA (DialFuture ?b a lid kA) LA =
        (Return (Inr (connection_new a tb (next_ref LA))), ?LA1, callsA @ [AppMessage sfA tb wA])"
      by (rule dial)
    show "convert_update x apiB clkB (UpdateAppMessage wA) LB =
        (Return (Ready (Some (Incoming (listener_id sb) (connection_new b ta (next_ref LB)) la ra))),
         add_stream ?a sb LB, callsB @ [AppMessage sfB ta wB])" by (rule acc)
    show "convert_update x apiA clkA' (UpdateAppMessage wB) ?LA1 =
        (Return Pending, add_stream ?b sa LA, [])" by (rule listen)
    show "lookup_stream ?b (add_stream ?b sa LA) = Some (conn_stream (connection_new a tb (next_ref LA)), sa)"
      using assms(5) by (simp add: add_stream_lookup connection_new_def)
    show "lookup_stream ?a (add_stream ?a sb LB) = Some (next_ref LB, sb)"
      using assms(6) by (simp add: add_stream_lookup)
    show "get_remote_stream_id sa = my_stream_id sb" "get_remote_stream_id sb = my_stream_id sa"
      by (simp_all add: sa_def sb listened_def accepted_def stream_defs)
  qed (rule init)
qed

text \<open>Two concrete nodes shake hands.\<close>

definition node_listener :: "byte \<Rightarrow> Listener" where
  "node_listener n = (listener_new UnsafeTransport 0 node_status_new (Keypair [n]))
     \<lparr>l_local_address := Some (sample_address n)\<rparr>"

lemma node_listener_simps [simp]:
  "listener_wf (node_listener n)" "l_local_address (node_listener n) = Some (sample_address n)"
  "lookup_stream a (node_listener n) = None"
  by (simp_all add: node_listener_def listener_new_def listener_wf_def lookup_stream_def)

lemma sample_address_simps [simp]:
  "vld0_address (sample_address n)" "public_part (sample_address n) = sample_address n"
  "address_to_target api (sample_address n) = (Some (sample_target n), [])"
  by (simp_all add: sample_address_def sample_target_def)

lemma handshake_establishes_link_witness:
  "\<exists>c L1 sf w ev L2 sf' w' L3. dial_task sample_ext sample_api sample_clock
       (DialFuture (sample_address 2) (sample_address 1) 0 (Keypair [1])) (node_listener 1) =
       (Return (Inr c), L1, [AppMessage sf (sample_target 2) w]) \<and>
     convert_update sample_ext sample_api sample_clock (UpdateAppMessage w) (node_listener 2) =
       (Return (Ready (Some ev)), L2, [AppMessage sf' (sample_target 1) w']) \<and>
     convert_update sample_ext sample_api late_clock (UpdateAppMessage w') L1 = (Return Pending, L3, [])"
proof -
  have up: "can_send sample_api" by (simp add: can_send_def sample_api_def)
  show ?thesis
    using handshake_establishes_link [OF sample_wire_laws sample_public_key_law up up, of
        "node_listener 1" "node_listener 2" "sample_address 1" "sample_address 2" "sample_target 2" "[]"
        "sample_target 1" "[]" sample_clock sample_clock 0 "Keypair [1]" late_clock 0]
    by auto
qed

subsection \<open>Both dial at once\<close>

lemma handle_dial_Greater:
  "address_cmp x raddr laddr = Greater \<Longrightarrow> handle_dial x api clk laddr DialMsg sid raddr d r =
     accept_dial x api clk sid d (update_inbound_last_timestamp_to_now (instant_now clk)) r"
  by (simp add: handle_dial_def accept_dial_def)

lemma dial_to_dialer:
  assumes laws: "wire_laws x" "public_key_law x" and up: "can_send api"
    and t: "vld0_address (local_address t)" "control_wire x ''DIAL'' t = Return w"
    and L: "lookup_stream (public_part (local_address t)) L = Some (r, s)" "l_local_address L = Some laddr"
    and s: "status s = Dial" "get_remote_stream_id s = 0"
  shows "address_cmp x (local_address t) laddr = Greater \<Longrightarrow>
      \<exists>ev s' calls. convert_update x api clk (UpdateAppMessage w) L =
        (Return (Ready (Some ev)), set_stream r s' L, calls) \<and> status s' = Listen \<and>
        get_remote_stream_id s' = my_stream_id t"
    and "address_cmp x (local_address t) laddr = Less \<Longrightarrow>
      \<exists>s' calls. convert_update x api clk (UpdateAppMessage w) L =
        (Return Pending, set_stream r s' L, calls) \<and> status s' = Dial \<and>
        get_remote_stream_id s' = my_stream_id t"
proof -
  have ma: "multiaddr_law x" using laws(1) by (simp add: wire_laws_def)
  let ?a = "public_part (local_address t)" and ?d = "control_data x ''DIAL'' t"
  let ?sid = "my_stream_id t"
  let ?s1 = "update_remote_stream_id ?sid s"
  have r: "stream_at r L = Some s" using lookup_streamD [OF L(1)] by simp
  obtain sg where dec: "decode_message x w = Return (Inr (0, 0, ?sid, ?a, ?d, sg))"
    using control_decodes [OF laws(1) t] by blast
  have packet: "convert_update x api clk (UpdateAppMessage w) L =
      handle_dial x api clk laddr DialMsg ?sid ?a ?d r (set_stream r ?s1 L)"
    using L s
    by (simp add: convert_message [OF dec] handle_packet_def handle_stream_def with_stream_def
        on_stream_at [OF r] control_data_tag get_remote_stream_id_def update_remote_stream_id_def)
  have at: "stream_at r (set_stream r ?s1 L) = Some ?s1" by simp
  note ek = extract_control_key [OF laws(2) at, of "''DIAL''" t]
  { assume cmp: "address_cmp x (local_address t) laddr = Greater"
    let ?s2 = "update_inbound_last_timestamp_to_now (instant_now clk) (accepted x ?sid t ?s1)"
    have "status ?s2 = Listen" "get_remote_stream_id ?s2 = ?sid"
      by (simp_all add: accepted_def stream_defs)
    moreover have "\<exists>ev calls. convert_update x api clk (UpdateAppMessage w) L =
        (Return (Ready (Some ev)), set_stream r ?s2 L, calls)"
      unfolding packet
      using accept_dial_eval [OF ma laws(2) up at refl, of
          "update_inbound_last_timestamp_to_now (instant_now clk)" ?sid t clk] cmp
      by (auto simp: handle_dial_Greater)
    ultimately show "\<exists>ev s' calls. convert_update x api clk (UpdateAppMessage w) L =
        (Return (Ready (Some ev)), set_stream r s' L, calls) \<and> status s' = Listen \<and>
        get_remote_stream_id s' = ?sid" by blast }
  { assume cmp: "address_cmp x (local_address t) laddr = Less"
    let ?s2 = "update_status Dial (update_inbound_last_timestamp_to_now (instant_now clk)
      (update_remote_public_key (public_key x (my_keypair t)) ?s1))"
    obtain v sf where "send_dial x api ?s2 = Return [AppMessage sf (remote_target ?s2) v]"
      using send_control(1) [OF ma up] by blast
    then have "convert_update x api clk (UpdateAppMessage w) L =
        (Return Pending, set_stream r ?s2 L, [AppMessage sf (remote_target ?s2) v])"
      using cmp unfolding packet
      by (simp add: handle_dial_def ek act_then_def act_modify_def act_return_def act_calls_def
          with_stream_def)
    moreover have "status ?s2 = Dial" "get_remote_stream_id ?s2 = ?sid"
      by (simp_all add: stream_defs)
    ultimately show "\<exists>s' calls. convert_update x api clk (UpdateAppMessage w) L =
        (Return Pending, set_stream r s' L, calls) \<and> status s' = Dial \<and>
        get_remote_stream_id s' = ?sid" by blast }
qed

text \<open>
  C9: When two nodes dial each other at once, exactly one becomes the listener: each has a
  stream in state \<open>Dial\<close> for the other and receives the other's DIAL; the node whose address
  compares smaller reports an incoming connection and listens, the other goes on dialing and
  reports nothing; both know the other's stream id.
\<close>

theorem simultaneous_dial:
  fixes apiA apiB :: veilid_api
  assumes "wire_laws x" and "public_key_law x" and "can_send apiA" and "can_send apiB"
    and "l_local_address LA = Some a" and "local_address sa = a" and "vld0_address a"
    and "l_local_address LB = Some b" and "local_address sb = b" and "vld0_address b"
    and "lookup_stream (public_part b) LA = Some (ra, sa)" "status sa = Dial" "get_remote_stream_id sa = 0"
    and "lookup_stream (public_part a) LB = Some (rb, sb)" "status sb = Dial" "get_remote_stream_id sb = 0"
    and "control_wire x ''DIAL'' sa = Return wA" and "control_wire x ''DIAL'' sb = Return wB"
    and "address_cmp x a b = Less"
  shows "\<exists>ev sa' callsA sb' callsB.
    convert_update x apiA clkA (UpdateAppMessage wB) LA =
      (Return (Ready (Some ev)), set_stream ra sa' LA, callsA) \<and> status sa' = Listen \<and>
    convert_update x apiB clkB (UpdateAppMessage wA) LB =
      (Return Pending, set_stream rb sb' LB, callsB) \<and> status sb' = Dial \<and>
    get_remote_stream_id sa' = my_stream_id sb \<and> get_remote_stream_id sb' = my_stream_id sa"
proof -
  have "address_cmp x (local_address sb) a = Greater"
    using address_cmp_swap [of x b a] assms(9,19) by simp
  from dial_to_dialer(1) [where clk = clkA, OF assms(1,2,3) _ assms(18) _ assms(5,12,13) this] obtain ev sa' callsA where
    A: "convert_update x apiA clkA (UpdateAppMessage wB) LA =
      (Return (Ready (Some ev)), set_stream ra sa' LA, callsA)" "status sa' = Listen"
      "get_remote_stream_id sa' = my_stream_id sb"
    using assms(9,10,11) by auto
  have "address_cmp x (local_address sa) b = Less" using assms(6,19) by simp
  from dial_to_dialer(2) [where clk = clkB, OF assms(1,2,4) _ assms(17) _ assms(8,15,16) this] obtain sb' callsB where
    "convert_update x apiB clkB (UpdateAppMessage wA) LB = (Return Pending, set_stream rb sb' LB, callsB)"
      "status sb' = Dial" "get_remote_stream_id sb' = my_stream_id sa"
    using assms(6,7,14) by auto
  with A show ?thesis by blast
qed

text \<open>Two concrete nodes dial each other.\<close>

definition dialing_stream :: "byte \<Rightarrow> byte \<Rightarrow> VeilidStream" where
  "dialing_stream me peer = stream_init sample_clock 0 (sample_address me) (sample_address peer)
     (sample_target peer) 0 (Keypair [me])"

definition dialing_listener :: "byte \<Rightarrow> byte \<Rightarrow> Listener" where
  "dialing_listener me peer =
     add_stream (sample_address peer) (dialing_stream me peer) (node_listener me)"

lemma simultaneous_dial_witness:
  "\<exists>wA wB ev L1 c1 L2 c2. control_wire sample_ext ''DIAL'' (dialing_stream 1 2) = Return wA \<and>
     control_wire sample_ext ''DIAL'' (dialing_stream 2 1) = Return wB \<and>
     convert_update sample_ext sample_api sample_clock (UpdateAppMessage wB) (dialing_listener 1 2) =
       (Return (Ready (Some ev)), L1, c1) \<and>
     convert_update sample_ext sample_api sample_clock (UpdateAppMessage wA) (dialing_listener 2 1) =
       (Return Pending, L2, c2)"
proof -
  have up: "can_send sample_api" by (simp add: can_send_def sample_api_def)
  obtain wA wB where w: "control_wire sample_ext ''DIAL'' (dialing_stream 1 2) = Return wA"
    "control_wire sample_ext ''DIAL'' (dialing_stream 2 1) = Return wB"
    using send_control(1) [OF sample_multiaddr_law up] by blast
  have "address_cmp sample_ext (sample_address 1) (sample_address 2) = Less"
    by (simp add: address_cmp_def sample_address_def string_cmp_def sample_key_encode_def VLD0_def
        less_char_def)
  moreover have "l_local_address (dialing_listener me peer) = Some (sample_address me)"
    "lookup_stream (sample_address peer) (dialing_listener me peer) =
       Some (next_ref (node_listener me), dialing_stream me peer)"
    "local_address (dialing_stream me peer) = sample_address me"
    "status (dialing_stream me peer) = Dial" "get_remote_stream_id (dialing_stream me peer) = 0" for me peer
    by (simp_all add: dialing_listener_def add_stream_lookup dialing_stream_def get_remote_stream_id_def)
  ultimately show ?thesis
    using w simultaneous_dial [OF sample_wire_laws sample_public_key_law up up, of "dialing_listener 1 2"
        "sample_address 1" "dialing_stream 1 2" "dialing_listener 2 1" "sample_address 2" "dialing_stream 2 1"
        "next_ref (node_listener 1)" "next_ref (node_listener 2)" wA wB sample_clock sample_clock]
    by auto
qed

end
