(* ===== verification/Listener_Runs.thy ===== *)
theory Listener_Runs
  imports Packets Delivery_Progress
begin

text \<open>
  The listener as a state machine: updates arrive, conversions and spawned tasks run in any
  order, connections read and write, dials complete, heartbeats pass. An interface
  (\<open>stream_invariant\<close>) says what a predicate on streams must be closed under to hold of every
  stream in every reachable state; it is interpreted on the outbound queue, on the status, on
  the inbound buffer and on the queue of early messages.
\<close>

subsection \<open>Steps\<close>

inductive listener_step :: "ext \<Rightarrow> Listener \<Rightarrow> Listener \<Rightarrow> bool" for x :: ext where
  update: "listener_step x L (L\<lparr>rx := rx L @ [u]\<rparr>)"
| closed: "listener_step x L (L\<lparr>rx_closed := True\<rparr>)"
| event: "get_next_event L = (e, L') \<Longrightarrow> listener_step x L L'"
| task: "run_task x api clk i L = (L', calls) \<Longrightarrow> listener_step x L L'"
| job: "run_job x api clk j L = (L', calls) \<Longrightarrow> listener_step x L L'"
| beat: "heartbeat_listener x api clk has_api tt L = (r, L', calls) \<Longrightarrow> listener_step x L L'"
| dialed: "dial_task x api clk f L = (r, L', calls) \<Longrightarrow> listener_step x L L'"
| conn_read: "stream_at r L = Some s \<Longrightarrow> poll_read now w n s = (res, s') \<Longrightarrow>
    listener_step x L (set_stream r s' L)"
| conn_write: "stream_at r L = Some s \<Longrightarrow> poll_write now d s = (res, s', spawn) \<Longrightarrow>
    listener_step x L (set_stream r s' L)"
| flushed: "stream_at r L = Some s \<Longrightarrow> flush x api now s = (calls, s') \<Longrightarrow>
    listener_step x L (set_stream r s' L)"

inductive listener_reach :: "ext \<Rightarrow> Listener \<Rightarrow> bool" for x :: ext where
  init: "listener_reach x (listener_new tt lid ns kp)"
| step: "listener_reach x L \<Longrightarrow> listener_step x L L' \<Longrightarrow> listener_reach x L'"

subsection \<open>What holds of every stream\<close>

definition all_streams :: "(VeilidStream \<Rightarrow> bool) \<Rightarrow> Listener \<Rightarrow> bool" where
  "all_streams P L \<longleftrightarrow> (\<forall>r s. stream_at r L = Some s \<longrightarrow> P s)"

lemma all_streams_store: "store L' = store L \<Longrightarrow> all_streams P L \<Longrightarrow> all_streams P L'"
  by (simp add: all_streams_def stream_at_def)

lemma all_streams_set: "all_streams P L \<Longrightarrow> P s \<Longrightarrow> all_streams P (set_stream r s L)"
  by (auto simp: all_streams_def)

lemma all_streams_on: "all_streams P L \<Longrightarrow> (\<And>s. P s \<Longrightarrow> P (f s)) \<Longrightarrow> all_streams P (on_stream r f L)"
  by (auto simp: all_streams_def)

lemma all_streams_add: "all_streams P L \<Longrightarrow> P s \<Longrightarrow> all_streams P (add_stream a s L)"
  by (auto simp: all_streams_def add_stream_stream_at)

lemma all_streams_fold_delete:
  "all_streams P L \<Longrightarrow> (\<And>s. P s \<Longrightarrow> P (wake_to_read s)) \<Longrightarrow> all_streams P (fold delete_stream as L)"
proof (induction as arbitrary: L)
  case (Cons a as)
  have "all_streams P (L\<lparr>streams := m\<rparr>)" for m
    by (rule all_streams_store [OF _ Cons.prems(1)]) simp
  then have "all_streams P (delete_stream a L)"
    using Cons.prems by (auto simp: delete_stream_def split: option.split intro: all_streams_on)
  with Cons show ?case by simp
qed simp

locale stream_invariant =
  fixes P :: "VeilidStream \<Rightarrow> bool"
  assumes P_new: "P (stream_init clk lid laddr raddr target rid kp)"
    and P_stream_id: "P s \<Longrightarrow> P (update_remote_stream_id i s)"
    and P_heard: "P s \<Longrightarrow> P (update_inbound_last_timestamp_to_now now s)"
    and P_key: "P s \<Longrightarrow> P (update_remote_public_key pk s)"
    and P_status: "P s \<Longrightarrow> st \<noteq> Expired \<Longrightarrow> P (update_status st s)"
    and P_generate: "P s \<Longrightarrow> P (generate_messages s)"
    and P_send: "P s \<Longrightarrow> P (snd (send_messages x api now s))"
    and P_recv: "P s \<Longrightarrow> P (recv_message now del k d s)"
    and P_ack: "P s \<Longrightarrow> P (active_status del s)"
    and P_wake: "P s \<Longrightarrow> P (wake_to_read s)"
    and P_read: "P s \<Longrightarrow> P (snd (poll_read now w n s))"
    and P_write: "P s \<Longrightarrow> P (fst (snd (poll_write now d s)))"
begin

lemmas P_ops = P_new P_stream_id P_heard P_key P_status P_generate P_recv P_ack P_wake

lemma keeps_on [keeps]:
  "(\<And>s. P s \<Longrightarrow> P (f s)) \<Longrightarrow> act_keeps (all_streams P) (act_modify (on_stream r f))"
  by (rule keeps_modify) (rule all_streams_on)

lemma keeps_set: "P s \<Longrightarrow> act_keeps (all_streams P) (act_modify (set_stream r s))"
  by (rule keeps_modify) (rule all_streams_set)

lemma keeps_with:
  assumes "\<And>s. P s \<Longrightarrow> act_keeps (all_streams P) (f s)"
  shows "act_keeps (all_streams P) (with_stream r f)"
  using assms by (auto simp: act_keeps_def final_def with_stream_def all_streams_def split: option.split)

lemma keeps_flush:
  "act_keeps (all_streams P) (with_stream r (\<lambda>s. case send_messages x api now s of
     (calls, s') \<Rightarrow> act_then (act_modify (set_stream r s')) (\<lambda>_. act_calls calls)))"
proof (rule keeps_with)
  fix s assume "P s"
  then have "P (snd (send_messages x api now s))" by (rule P_send)
  then show "act_keeps (all_streams P) (case send_messages x api now s of
     (calls, s') \<Rightarrow> act_then (act_modify (set_stream r s')) (\<lambda>_. act_calls calls))"
    by (auto intro!: keeps keeps_set split: prod.split)
qed

lemma keeps_extract [keeps]: "act_keeps (all_streams P) (extract_key x tag d r)"
  unfolding extract_key_def by (auto intro!: keeps P_ops split: option.split)

lemma keeps_accept:
  assumes "\<And>s. P s \<Longrightarrow> P (touch s)"
  shows "act_keeps (all_streams P) (accept_dial x api clk sid d touch r)"
  unfolding accept_dial_def by (auto intro!: keeps P_ops assms)

lemma keeps_create [keeps]:
  "act_keeps (all_streams P) (create_stream api clk lid laddr raddr sid kp)"
  by (auto simp: act_keeps_def final_def create_stream_def stream_new_def all_streams_add P_new
      split: prod.split option.split)

lemma keeps_create_accept:
  assumes "\<And>s. P s \<Longrightarrow> P (touch s)"
  shows "act_keeps (all_streams P) (act_then (create_stream api clk lid laddr raddr sid kp)
    (\<lambda>res. case res of Inr r \<Rightarrow> accept_dial x api clk sid d touch r | Inl e \<Rightarrow> act_return Pending))"
proof (rule keeps_then [OF keeps_create])
  fix res :: "string + nat"
  show "act_keeps (all_streams P)
      (case res of Inr r \<Rightarrow> accept_dial x api clk sid d touch r | Inl e \<Rightarrow> act_return Pending)"
    using keeps_accept [OF assms] by (cases res) (simp_all add: keeps_return)
qed

lemma keeps_handlers:
  "act_keeps (all_streams P) (handle_dial x api clk laddr mt sid raddr d r)"
  "act_keeps (all_streams P) (handle_listen x api clk mt sid sg del k d r)"
  "act_keeps (all_streams P) (handle_active x api clk lid laddr mt sid raddr sg del k d kp r)"
proof -
  show "act_keeps (all_streams P) (handle_dial x api clk laddr mt sid raddr d r)"
    unfolding handle_dial_def
    by (cases mt; cases "address_cmp x raddr laddr") (auto intro!: keeps keeps_flush P_ops)
  show "act_keeps (all_streams P) (handle_listen x api clk mt sid sg del k d r)"
    unfolding handle_listen_def by (cases mt) (auto intro!: keeps P_ops)
  show "act_keeps (all_streams P) (handle_active x api clk lid laddr mt sid raddr sg del k d kp r)"
    unfolding handle_active_def active_data_def
    by (cases mt) (auto intro!: keeps keeps_create_accept P_ops)
qed

lemma keeps_handle_stream:
  "act_keeps (all_streams P) (handle_stream x api clk laddr sid raddr sg del k d kp lid r)"
  unfolding handle_stream_def
  by (auto intro!: keeps keeps_handlers split: StreamStatus.split)

lemma keeps_no_stream:
  "act_keeps (all_streams P) (handle_no_stream x api clk lid laddr mt sid raddr d kp)"
proof -
  have "act_keeps (all_streams P) (act_modify (\<lambda>L. L\<lparr>l_local_target :=
      (fst (l_local_target L), TargetActive (utc_now clk))\<rparr>))"
    by (rule keeps_modify) (rule all_streams_store, simp)
  then show ?thesis
    unfolding handle_no_stream_def by (cases mt) (auto intro!: keeps keeps_create_accept P_ops)
qed

lemma keeps_handle_packet: "act_keeps (all_streams P) (handle_packet x api clk pkt)"
  unfolding act_keeps_def
proof (intro allI impI)
  fix L assume L: "all_streams P L"
  obtain del k sid raddr d sg where pkt: "pkt = (del, k, sid, raddr, d, sg)" by (cases pkt) auto
  let ?L1 = "case lookup_stream raddr L of
      Some (r, s) \<Rightarrow> (if get_remote_stream_id s = 0
                     then on_stream r (update_remote_stream_id sid) L else L)
    | None \<Rightarrow> L"
  have "all_streams P ?L1"
    using L by (auto intro!: all_streams_on P_ops split: option.split)
  note step = act_keepsD [OF keeps_handle_stream this, unfolded final_def]
    act_keepsD [OF keeps_no_stream this, unfolded final_def]
  show "all_streams P (final (handle_packet x api clk pkt) L)"
    using step \<open>all_streams P ?L1\<close>
    by (cases "l_local_address ?L1"; cases "lookup_stream raddr L")
      (auto simp: final_def handle_packet_def pkt Let_def)
qed

lemma keeps_convert_update: "act_keeps (all_streams P) (convert_update x api clk u)"
proof -
  have other: "act_keeps (all_streams P) m" if "\<And>L. store (final m L) = store L" for m :: "'a act"
    unfolding act_keeps_def using that all_streams_store by blast
  show ?thesis
  proof (cases u)
    case (UpdateAppMessage w)
    then show ?thesis
      using keeps_handle_packet
      by (auto simp: convert_update_def handle_app_message_def keeps_return keeps_lift
          split: run.split sum.split)
  next
    case (UpdateAttachment st ready)
    have "store (final (try_online x api clk tt) L) = store L" for tt L
      by (cases tt) (auto simp: final_def try_online_def Let_def act_defs
        split: option.splits run.splits sum.splits prod.splits)
    then have "act_keeps (all_streams P) (try_online x api clk tt)" for tt
      unfolding act_keeps_def using all_streams_store by blast
    moreover have "act_keeps (all_streams P) (act_modify (\<lambda>L. L\<lparr>l_status := Online\<rparr>))"
      by (rule keeps_modify) (rule all_streams_store, simp)
    ultimately have "act_keeps (all_streams P)
      (act_then (if b then try_online x api clk tt else act_return None)
       (\<lambda>addr. case addr of
            None \<Rightarrow> act_return Pending
          | Some listen_addr \<Rightarrow>
              act_then (act_modify (\<lambda>L. L\<lparr>l_status := Online\<rparr>)) (\<lambda>_.
              act_then (act_get l_id) (\<lambda>lid.
                act_return (Ready (Some (NewAddress lid listen_addr)))))))" for b tt
      by (auto intro!: keeps split: option.split)
    note keep = this
    show ?thesis
      unfolding act_keeps_def
    proof (intro allI impI)
      fix L assume "all_streams P L"
      then have "all_streams P (fst (note_attachment st ready L))"
        by (rule all_streams_store [rotated]) (simp add: note_attachment_def Let_def)
      from act_keepsD [OF keep [of "snd (note_attachment st ready L)"] this]
      show "all_streams P (final (convert_update x api clk u) L)"
        by (cases "note_attachment st ready L")
          (auto simp: UpdateAttachment convert_update_def handle_attachment_def final_def split: if_splits)
    qed
  next
    case (UpdateConfig cfg)
    have st: "store (handle_config cfg L) = store L" for L
      by (auto simp: handle_config_def Let_def split: option.split VeilidTransportType.split)
    have "act_keeps (all_streams P) (act_modify (handle_config cfg))"
      by (rule keeps_modify) (rule all_streams_store [OF st])
    then have "act_keeps (all_streams P)
        (act_then (act_modify (handle_config cfg)) (\<lambda>_. act_return Pending))"
      by (rule keeps_then) (rule keeps_return)
    then show ?thesis by (simp only: UpdateConfig convert_update_def VeilidUpdate.case)
  next
    case (UpdateRouteChange dead dead_remote)
    then show ?thesis
      by (auto simp: act_keeps_def final_def convert_update_def handle_route_change_def split: option.split)
  qed (simp_all add: convert_update_def keeps_return)
qed

lemma keeps_heartbeat_stream: "act_keeps (all_streams P) (heartbeat_stream x api clk r)"
  unfolding heartbeat_stream_def
proof (rule keeps_with)
  fix s assume "P s"
  have flush: "act_keeps (all_streams P) (with_stream r (\<lambda>s. case send_messages x api now s of
         (calls, s') \<Rightarrow> act_then (act_modify (set_stream r s')) (\<lambda>_.
           act_then (act_calls calls) (\<lambda>_. act_return ([], [])))))" for now
  proof (rule keeps_with)
    fix s assume "P s"
    then have "P (snd (send_messages x api now s))" by (rule P_send)
    then show "act_keeps (all_streams P) (case send_messages x api now s of
       (calls, s') \<Rightarrow> act_then (act_modify (set_stream r s')) (\<lambda>_.
         act_then (act_calls calls) (\<lambda>_. act_return ([], []))))"
      by (auto intro!: keeps keeps_set split: prod.split)
  qed
  show "act_keeps (all_streams P) (if is_active (instant_now clk) s then
       act_then (act_calls (send_status_if_stale x api (instant_now clk) s)) (\<lambda>_.
       act_then (act_modify (on_stream r generate_messages)) (\<lambda>_.
       with_stream r (\<lambda>s. case send_messages x api (instant_now clk) s of
         (calls, s') \<Rightarrow> act_then (act_modify (set_stream r s')) (\<lambda>_.
           act_then (act_calls calls) (\<lambda>_. act_return ([], []))))))
     else if is_expired (instant_now clk) s then act_return ([remote_address s], [])
     else (case get_status (instant_now clk) s of
         Inr st \<Rightarrow> (case st of
             Dial \<Rightarrow> act_return ([], [SendDial r])
           | Listen \<Rightarrow> act_return ([], [SendListen r])
           | _ \<Rightarrow> act_return ([], []))
       | Inl e \<Rightarrow> act_return ([], [])))"
    by (auto intro!: keeps_then keeps_return keeps_calls keeps_on flush P_generate
        split: sum.split StreamStatus.split)
qed

lemma keeps_heartbeat_streams: "act_keeps (all_streams P) (heartbeat_streams x api clk rs)"
  by (induction rs) (auto intro!: keeps keeps_heartbeat_stream split: prod.split)

lemma keeps_heartbeat: "act_keeps (all_streams P) (heartbeat_listener x api clk has_api tt)"
proof -
  have ping: "act_keeps (all_streams P) (\<lambda>L. case tt of
         UnsafeTransport \<Rightarrow> act_return [] L
       | SafeTransport \<Rightarrow>
           (if ns_is_attached (node_status L) \<and> fst (l_local_target L) \<noteq> None
            then act_lift (send_ping x L) L else act_return [] L))"
    by (auto simp: act_keeps_def final_def act_defs split: VeilidTransportType.split)
  have delete: "act_keeps (all_streams P) (act_modify (fold delete_stream as))" for as
    by (rule keeps_modify) (simp add: all_streams_fold_delete P_wake)
  have update: "act_keeps (all_streams P) (\<lambda>L. if has_api \<and> should_update_target (utc_now clk) L
         then (case update_target (utc_now clk) L of (L1, js) \<Rightarrow> (Return js, L1, []))
         else act_return [] L)"
  proof -
    have "store (fst (update_target (utc_now clk) L)) = store L" for L
      by (auto simp: update_target_def Let_def split: prod.split option.split)
    then show ?thesis
      by (auto simp: act_keeps_def final_def act_return_def split: prod.split) (metis all_streams_store fst_conv)
  qed
  show ?thesis
    unfolding heartbeat_listener_def
    by (auto intro!: keeps keeps_heartbeat_streams ping delete update split: prod.split)
qed

text \<open>Every step, and so every reachable state.\<close>

lemma keeps_step: "listener_step x L L' \<Longrightarrow> all_streams P L \<Longrightarrow> all_streams P L'"
proof (induction rule: listener_step.induct)
  case (update L u)
  then show ?case by (rule all_streams_store [rotated]) simp
next
  case (closed L)
  then show ?case by (rule all_streams_store [rotated]) simp
next
  case (event L e L')
  have "store L' = store L"
    using event(1) by (auto simp: get_next_event_def Let_def split: list.splits if_splits)
  then show ?case by (rule all_streams_store) (rule event(2))
next
  case (task api clk i L L' calls)
  let ?L1 = "L\<lparr>tasks := take i (tasks L) @ drop (Suc i) (tasks L)\<rparr>"
  have "all_streams P ?L1" by (rule all_streams_store [OF _ task(2)]) simp
  then have fin: "all_streams P (final (convert_update x api clk (tasks L ! i)) ?L1)"
    using act_keepsD [OF keeps_convert_update] by blast
  have "L' = L \<or> store L' = store (final (convert_update x api clk (tasks L ! i)) ?L1)"
    using task(1) by (auto simp: run_task_def Let_def final_def split: if_splits prod.splits run.splits)
  with task(2) fin all_streams_store show ?case by blast
next
  case (job api clk j L L' calls)
  then show ?case using run_job_streams all_streams_store by blast
next
  case (beat api clk has_api tt L r L' calls)
  from act_keepsD [OF keeps_heartbeat beat(2), of x api clk has_api tt] beat(1) show ?case
    by (simp add: final_def)
next
  case (dialed api clk f L r L' calls)
  have "L' = L \<or> (\<exists>t. L' = add_stream (df_remote f)
      (stream_init clk (df_listener f) (df_local f) (df_remote f) t 0 (df_keys f)) L)"
    using dialed(1) by (auto simp: dial_task_def stream_new_def Let_def split: prod.splits option.splits run.splits if_splits)
  with dialed(2) show ?case by (auto intro: all_streams_add P_new)
next
  case (conn_read r L s now w n res s')
  then have "P (snd (poll_read now w n s))" by (intro P_read) (simp add: all_streams_def)
  with conn_read show ?case by (simp add: all_streams_set)
next
  case (conn_write r L s now d res s' spawn)
  then have "P (fst (snd (poll_write now d s)))" by (intro P_write) (simp add: all_streams_def)
  with conn_write show ?case by (simp add: all_streams_set)
next
  case (flushed r L s api now calls s')
  then have "P (snd (send_messages x api now (generate_messages s)))"
    by (intro P_send P_generate) (simp add: all_streams_def)
  with flushed show ?case by (simp add: all_streams_set flush_def)
qed

lemma reachable: "listener_reach x L \<Longrightarrow> all_streams P L"
proof (induction rule: listener_reach.induct)
  case (init tt lid ns kp)
  then show ?case by (simp add: all_streams_def stream_at_def listener_new_def)
next
  case (step L L')
  then show ?case by (blast intro: keeps_step)
qed

end

subsection \<open>Its instances\<close>

lemma poll_write_cases:
  "fst (snd (poll_write now d s)) = s \<or>
     fst (snd (poll_write now d s)) = s\<lparr>outbound_stream := outbound_stream s @ frame d\<rparr>"
  by (simp add: poll_write_def insert_to_outbound_stream_def frame_def Let_def)

lemma poll_read_snd:
  "outbound_message_queue (snd (poll_read now w n s)) = outbound_message_queue s"
  "status (snd (poll_read now w n s)) = status s"
  "inbound_buffer (snd (poll_read now w n s)) = inbound_buffer s"
  by (rule poll_read_frame [OF prod.collapse [symmetric]])+

lemma send_messages_cases:
  "snd (send_messages x api now s) = s\<lparr>outbound_message_queue :=
     mark_sent now (messages_to_send now s) (outbound_message_queue s)\<rparr>"
  by (simp add: send_messages_def Let_def)

text \<open>The outbound queue.\<close>

interpretation outbound: stream_invariant "\<lambda>s. outbound_queue_wf (outbound_message_queue s)"
proof unfold_locales
  fix s :: VeilidStream and x :: ext and api now w n d
  assume wf: "outbound_queue_wf (outbound_message_queue s)"
  show "outbound_queue_wf (outbound_message_queue (snd (send_messages x api now s)))"
    using mark_sent_queue_wf [OF wf] by (simp add: send_messages_cases)
  show "outbound_queue_wf (outbound_message_queue (snd (poll_read now w n s)))"
    using wf by (simp add: poll_read_snd)
  show "outbound_queue_wf (outbound_message_queue (fst (snd (poll_write now d s))))"
    using wf poll_write_cases [of now d s] by auto
qed (simp_all add: outbound_queue_wf_recv generate_messages_wf)

text \<open>The status: no code sets \<open>Expired\<close>.\<close>

interpretation marked: stream_invariant "\<lambda>s. status s \<noteq> Expired"
proof unfold_locales
  fix s :: VeilidStream and now w n d
  assume st: "status s \<noteq> Expired"
  show "status (snd (poll_read now w n s)) \<noteq> Expired"
    using st by (simp add: poll_read_snd)
  show "status (fst (snd (poll_write now d s))) \<noteq> Expired"
    using st poll_write_cases [of now d s] by auto
qed (simp_all add: send_messages_cases)

text \<open>The inbound buffer never holds a complete write.\<close>

interpretation buffer: stream_invariant "\<lambda>s. fst (deframe (inbound_buffer s)) = []"
proof unfold_locales
  fix s :: VeilidStream and now w n d
  assume b: "fst (deframe (inbound_buffer s)) = []"
  show "fst (deframe (inbound_buffer (snd (poll_read now w n s)))) = []"
    using b by (simp add: poll_read_snd)
  show "fst (deframe (inbound_buffer (fst (snd (poll_write now d s))))) = []"
    using b poll_write_cases [of now d s] by auto
  show "fst (deframe (inbound_buffer (recv_message now k k' d s))) = []" for k k'
    using b recv_message_buffer [of now k k' d s] by auto
qed (simp_all add: send_messages_cases deframe_def update_remote_stream_id_def update_status_def
    update_inbound_last_timestamp_to_now_def update_remote_public_key_def)

subsection \<open>The map of streams\<close>

lemma listener_wf_other:
  "streams L' = streams L \<Longrightarrow> store L' = store L \<Longrightarrow> next_ref L' = next_ref L \<Longrightarrow>
     listener_wf L \<Longrightarrow> listener_wf L'"
  by (simp add: listener_wf_def)

lemma remote_address_ops:
  "remote_address (snd (send_messages x api now s)) = remote_address s"
  "remote_address (snd (poll_read now w n s)) = remote_address s"
  "remote_address (fst (snd (poll_write now d s))) = remote_address s"
proof -
  show "remote_address (snd (send_messages x api now s)) = remote_address s"
    by (simp add: send_messages_cases)
  show "remote_address (snd (poll_read now w n s)) = remote_address s"
    by (auto simp: poll_read_def read_inbound_stream_def Let_def)
  show "remote_address (fst (snd (poll_write now d s))) = remote_address s"
    using poll_write_cases [of now d s] by auto
qed

lemma listener_wf_delete: "listener_wf L \<Longrightarrow> listener_wf (delete_stream a L)"
proof -
  assume wf: "listener_wf L"
  have "listener_wf (L\<lparr>streams := hm_remove a (streams L)\<rparr>)"
    using wf by (auto simp: listener_wf_def hm.wf_remove dest!: hm.get_remove_SomeD)
  with wf show ?thesis
    by (auto simp: delete_stream_def split: option.split intro: listener_wf_on_stream)
qed

lemma listener_wf_fold_delete: "listener_wf L \<Longrightarrow> listener_wf (fold delete_stream as L)"
  by (induction as arbitrary: L) (simp_all add: listener_wf_delete)

lemma wf_heartbeat_stream: "act_keeps listener_wf (heartbeat_stream x api clk r)"
  unfolding act_keeps_def
proof (intro allI impI)
  fix L assume wf: "listener_wf L"
  let ?f = "\<lambda>s. snd (send_messages x api (instant_now clk) (generate_messages s))"
  have "final (heartbeat_stream x api clk r) L = L \<or>
      final (heartbeat_stream x api clk r) L = on_stream r generate_messages L \<or>
      final (heartbeat_stream x api clk r) L = on_stream r ?f L"
    by (auto simp: final_def heartbeat_stream_def with_stream_def act_defs on_stream_at
        split: option.split prod.split run.split StreamStatus.split sum.split)
  moreover have "listener_wf (on_stream r generate_messages L)" "listener_wf (on_stream r ?f L)"
    using wf by (auto intro!: listener_wf_on_stream simp: remote_address_ops)
  ultimately show "listener_wf (final (heartbeat_stream x api clk r) L)" using wf by auto
qed

lemma wf_heartbeat_streams: "act_keeps listener_wf (heartbeat_streams x api clk rs)"
  by (induction rs) (auto intro!: keeps wf_heartbeat_stream split: prod.split)

lemma wf_heartbeat: "act_keeps listener_wf (heartbeat_listener x api clk has_api tt)"
proof -
  have ping: "act_keeps listener_wf (\<lambda>L. case tt of
         UnsafeTransport \<Rightarrow> act_return [] L
       | SafeTransport \<Rightarrow>
           (if ns_is_attached (node_status L) \<and> fst (l_local_target L) \<noteq> None
            then act_lift (send_ping x L) L else act_return [] L))"
    by (auto simp: act_keeps_def final_def act_defs split: VeilidTransportType.split)
  have delete: "act_keeps listener_wf (act_modify (fold delete_stream as))" for as
    by (rule keeps_modify) (rule listener_wf_fold_delete)
  have update: "act_keeps listener_wf (\<lambda>L. if has_api \<and> should_update_target (utc_now clk) L
         then (case update_target (utc_now clk) L of (L1, js) \<Rightarrow> (Return js, L1, []))
         else act_return [] L)"
    by (auto simp: act_keeps_def final_def act_return_def update_target_def Let_def listener_wf_def
        split: prod.split option.split)
  show ?thesis
    unfolding heartbeat_listener_def
    by (auto intro!: keeps wf_heartbeat_streams ping delete update split: prod.split)
qed

lemma listener_wf_step: "listener_step x L L' \<Longrightarrow> listener_wf L \<Longrightarrow> listener_wf L'"
proof (induction rule: listener_step.induct)
  case (event L e L')
  have "streams L' = streams L \<and> store L' = store L \<and> next_ref L' = next_ref L"
    using event(1) by (auto simp: get_next_event_def Let_def split: list.splits if_splits)
  with event(2) show ?case by (simp add: listener_wf_def)
next
  case (task api clk i L L' calls)
  let ?L1 = "L\<lparr>tasks := take i (tasks L) @ drop (Suc i) (tasks L)\<rparr>"
  have "listener_wf ?L1" using task(2) by (simp add: listener_wf_def)
  then have fin: "listener_wf (final (convert_update x api clk (tasks L ! i)) ?L1)"
    using evolved_convert_update [of ?L1] by (simp add: evolved_def)
  have "L' = L \<or> (\<exists>rs. L' = (final (convert_update x api clk (tasks L ! i)) ?L1)\<lparr>async_rx := rs\<rparr>) \<or>
      L' = final (convert_update x api clk (tasks L ! i)) ?L1"
    using task(1) by (auto simp: run_task_def Let_def final_def split: if_splits prod.splits run.splits)
  with task(2) fin show ?case by (auto simp: listener_wf_def)
next
  case (job api clk j L L' calls)
  with run_job_streams [OF job(1)] show ?case by (simp add: listener_wf_def)
next
  case (beat api clk has_api tt L r L' calls)
  from act_keepsD [OF wf_heartbeat beat(2), of x api clk has_api tt] beat(1) show ?case
    by (simp add: final_def)
next
  case (dialed api clk f L r L' calls)
  have "L' = L \<or> (\<exists>t. L' = add_stream (df_remote f)
      (stream_init clk (df_listener f) (df_local f) (df_remote f) t 0 (df_keys f)) L)"
    using dialed(1) by (auto simp: dial_task_def stream_new_def Let_def split: prod.splits option.splits run.splits if_splits)
  with dialed(2) show ?case by (auto intro: listener_wf_add_stream)
next
  case (conn_read r L s now w n res s')
  then show ?case using listener_wf_set_stream remote_address_ops(2) by (metis snd_conv)
next
  case (conn_write r L s now d res s' spawn)
  then show ?case using listener_wf_set_stream remote_address_ops(3) by (metis fst_conv snd_conv)
next
  case (flushed r L s api now calls s')
  have "remote_address s' = remote_address s"
    using flushed(2) remote_address_ops(1) [of x api now "generate_messages s"] by (simp add: flush_def)
  with flushed show ?case by (blast intro: listener_wf_set_stream)
qed (simp_all add: listener_wf_def)

lemma listener_reach_wf: "listener_reach x L \<Longrightarrow> listener_wf L"
  by (induction rule: listener_reach.induct) (auto intro: listener_wf_step)

subsection \<open>Properties\<close>

text \<open>
  C6: In every reachable state of the listener, whatever updates arrive and in whatever order
  tasks, heartbeats, dials and connections run: each address of the map leads to a live stream
  of that address; every stream's outbound queue holds messages of 1 to 32623 bytes under
  their own numbers; no complete write is left in an inbound buffer; and no stream is ever
  marked \<open>Expired\<close>, so the arms of the code for that mark are dead.
\<close>

theorem reachable_listener:
  assumes "listener_reach x L"
  shows "(\<forall>a r. hm_get a (streams L) = Some r \<longrightarrow>
      (\<exists>s. stream_at r L = Some s \<and> remote_address s = a)) \<and>
    (\<forall>r s. stream_at r L = Some s \<longrightarrow> status s \<noteq> Expired \<and> fst (deframe (inbound_buffer s)) = [] \<and>
      (\<forall>k m. hm_get k (outbound_message_queue s) = Some m \<longrightarrow>
         seq m = k \<and> 0 < length (data m) \<and> length (data m) \<le> 32623))"
proof -
  have "\<exists>s. stream_at r L = Some s \<and> remote_address s = a" if "hm_get a (streams L) = Some r" for a r
    using listener_wf_lookup [OF listener_reach_wf [OF assms] that] by blast
  then show ?thesis
    using outbound.reachable [OF assms] marked.reachable [OF assms] buffer.reachable [OF assms]
    by (simp add: all_streams_def outbound_queue_wf_def)
qed

text \<open>A listener after a dial.\<close>

definition dialed_listener :: Listener where
  "dialed_listener = fst (snd (dial_task sample_ext sample_api sample_clock
     (DialFuture (sample_address 2) (sample_address 1) 0 (Keypair [1]))
     (listener_new UnsafeTransport 0 node_status_new (Keypair [1]))))"

lemma dialed_listener_reach: "listener_reach sample_ext dialed_listener"
  unfolding dialed_listener_def
  by (rule listener_reach.step [OF listener_reach.init listener_step.dialed]) (simp add: prod_eq_iff)

lemma dialed_listener_eval:
  "dialed_listener = add_stream (sample_address 2) (stream_init sample_clock 0 (sample_address 1)
     (sample_address 2) (NodeIdTarget (CryptoTyped VLD0 (NodeId [2]))) 0 (Keypair [1]))
     (listener_new UnsafeTransport 0 node_status_new (Keypair [1]))"
proof -
  have "address_to_target sample_api (sample_address 2) =
      (Some (NodeIdTarget (CryptoTyped VLD0 (NodeId [2]))), [])" by (simp add: sample_address_def)
  then show ?thesis
    by (simp add: dialed_listener_def dial_task_def stream_new_def Let_def split: run.split)
qed

lemma reachable_listener_witness:
  "\<exists>s. stream_at 0 dialed_listener = Some s \<and> remote_address s = sample_address 2 \<and> status s \<noteq> Expired"
  using reachable_listener [OF dialed_listener_reach]
  by (auto simp: dialed_listener_eval add_stream_stream_at listener_new_def)

text \<open>
  C5: What can stop the transport's tasks. In every reachable state a heartbeat never panics.
  Provided the node grants unsafe routing whenever it has a routing context (\<open>with_safety\<close> is
  unwrapped) and the clock is after 1970 (\<open>VeilidStream::new\<close> unwraps the time since then), a
  dial's task does not panic, and the conversion of an update panics exactly when the update
  is a message that decodes to a payload whose address text is not an address.
\<close>

theorem reachable_no_panic:
  assumes "multiaddr_law x" and "listener_reach x L" and "t_listener T = Some L"
  shows "no_panic (fst (heartbeat x api' clk' T)) \<and>
    (node_up api \<and> after_epoch clk \<longrightarrow>
       no_panic (fst (dial_task x api clk f L)) \<and>
       (no_panic (fst (convert_update x api clk u L)) \<longleftrightarrow>
          \<not> (\<exists>w p e. u = UpdateAppMessage w \<and> payload_decode x w = Inr p \<and>
               try_from_string x (pl_address p) = Inl e)))"
proof (intro conjI impI)
  have wf: "listener_wf L" "queues_wf L"
    using listener_reach_wf [OF assms(2)] outbound.reachable [OF assms(2)]
    by (simp_all add: all_streams_def queues_wf_def)
  then show "no_panic (fst (heartbeat x api' clk' T))"
    using assms(3) by (intro heartbeat_returns [OF assms(1)]) simp
  assume env: "node_up api \<and> after_epoch clk"
  have "send_dial x api s \<noteq> Panic e" for s e
    using control_no_panic(1) [OF assms(1), of api s] env by (auto simp: no_panic_iff)
  with env show "no_panic (fst (dial_task x api clk f L))"
    by (auto simp: dial_task_def stream_new_def connect_def Let_def
        split: prod.split option.split run.split)
  show "no_panic (fst (convert_update x api clk u L)) \<longleftrightarrow>
       \<not> (\<exists>w p e. u = UpdateAppMessage w \<and> payload_decode x w = Inr p \<and>
            try_from_string x (pl_address p) = Inl e)"
    using convert_update_panics [OF _ assms(1) _ wf] env by blast
qed

text \<open>A payload without an address panics; a message that is no payload does not.\<close>

lemma reachable_no_panic_witness:
  "\<not> no_panic (fst (convert_update sample_ext sample_api sample_clock
      (UpdateAppMessage (sample_encode \<lparr>pl_received_seq = 0, pl_msg_seq = 0, pl_stream_id = 0,
         pl_signature = [], pl_address = [], pl_data = []\<rparr>)) dialed_listener)) \<and>
   no_panic (fst (convert_update sample_ext sample_api sample_clock (UpdateAppMessage []) dialed_listener))"
proof -
  have up: "node_up sample_api" by (simp add: node_up_def sample_api_def)
  let ?T = "(transport_new True (Keypair [1]) UnsafeTransport)\<lparr>t_listener := Some dialed_listener\<rparr>"
  have "t_listener ?T = Some dialed_listener" by simp
  note ok = reachable_no_panic [OF sample_multiaddr_law dialed_listener_reach this, THEN conjunct2,
      THEN mp, THEN conjunct2, OF conjI [OF up sample_after_epoch]]
  have "try_from_string sample_ext [] = Inl ''Invalid format''" by (simp add: try_from_string_def)
  then show ?thesis
    by (simp add: ok sample_payload) (simp add: sample_decode_def)
qed

end
