(* ===== verification/Listener_Map.thy ===== *)
theory Listener_Map
  imports Listener_Runs
begin

text \<open>
  The listener's map of streams under the conversion of an update: only a DIAL changes it, by
  giving its sender a new stream, and only a newer DIAL replaces a stream. Together with the
  evolution of the stream objects (\<open>evolved\<close>) this says where the stream of an address goes.
\<close>

subsection \<open>Handlers that leave the map alone\<close>

abbreviation same_map :: "(Address, nat) hashmap \<Rightarrow> Listener \<Rightarrow> bool" where
  "same_map m L \<equiv> streams L = m"

lemma same_map_modify [keeps]:
  "(\<And>L. streams (f L) = streams L) \<Longrightarrow> act_keeps (same_map m) (act_modify f)"
  by (rule keeps_modify) simp

lemma same_map_extract_key [keeps]: "act_keeps (same_map m) (extract_key x tag d r)"
  unfolding extract_key_def by (auto intro!: keeps)

lemma same_map_flush [keeps]:
  "act_keeps (same_map m) (with_stream r (\<lambda>s. case send_messages x api now s of
     (calls, s') \<Rightarrow> act_then (act_modify (set_stream r s')) (\<lambda>_. act_calls calls)))"
  by (rule keeps_with_stream) (auto intro!: keeps split: prod.split)

lemma same_map_handle_dial: "act_keeps (same_map m) (handle_dial x api clk laddr mt sid raddr d r)"
  unfolding handle_dial_def
  by (cases mt; cases "address_cmp x raddr laddr") (auto intro!: keeps)

lemma same_map_handle_listen: "act_keeps (same_map m) (handle_listen x api clk mt sid sg del k d r)"
  unfolding handle_listen_def by (cases mt) (auto intro!: keeps)

lemma same_map_handle_active:
  "mt \<noteq> DialMsg \<Longrightarrow>
    act_keeps (same_map m) (handle_active x api clk lid laddr mt sid raddr sg del k d kp r)"
  unfolding handle_active_def by (cases mt) (auto intro!: keeps)

lemma same_map_handle_no_stream:
  "mt \<noteq> DialMsg \<Longrightarrow> act_keeps (same_map m) (handle_no_stream x api clk lid laddr mt sid raddr d kp)"
  unfolding handle_no_stream_def by (cases mt) (auto intro!: keeps)

subsection \<open>Handlers that give an address a stream\<close>

lemma final_accept_dial:
  assumes "stream_at r L = Some s" and "4 \<le> length d"
    and "\<And>s. status (touch s) = status s" and "\<And>s. get_remote_stream_id (touch s) = get_remote_stream_id s"
  shows "\<exists>s'. final (accept_dial x api clk sid d touch r) L = set_stream r s' L \<and>
    status s' = Listen \<and> get_remote_stream_id s' = sid"
proof -
  let ?n = "length ''DIAL''"
  let ?key = "\<lambda>s. if take ?n d = ascii ''DIAL'' then (case try_decode_protobuf x (drop ?n d) of
      Some pk \<Rightarrow> update_remote_public_key pk s | None \<Rightarrow> s) else s"
  let ?s = "touch (update_status Listen (update_remote_stream_id sid (?key s)))"
  have "final (accept_dial x api clk sid d touch r) L = set_stream r ?s L"
    using assms(1,2)
    by (simp add: accept_dial_def extract_key_def final_def act_defs with_stream_def on_stream_at
        split: run.split)
  moreover have "status ?s = Listen" by (simp add: assms(3) update_status_def)
  moreover have "get_remote_stream_id ?s = sid" unfolding assms(4) by (simp add: stream_defs)
  ultimately show ?thesis by blast
qed

text \<open>\<open>L'\<close> is \<open>L\<close> with a listening stream put under \<open>a\<close>, for a dialer with stream id \<open>sid\<close>.\<close>

definition accepted_from :: "Address \<Rightarrow> u64 \<Rightarrow> Listener \<Rightarrow> Listener \<Rightarrow> bool" where
  "accepted_from a sid L L' \<longleftrightarrow>
     (\<exists>s'. L' = add_stream a s' L \<and> status s' = Listen \<and> get_remote_stream_id s' = sid)"

lemma set_stream_add_stream: "set_stream (next_ref L) s (add_stream a t L) = add_stream a s L"
  by (simp add: set_stream_def add_stream_def hm_insert_twice)

lemma final_create_accept:
  assumes "4 \<le> length d"
    and "\<And>s. status (touch s) = status s" and "\<And>s. get_remote_stream_id (touch s) = get_remote_stream_id s"
  shows "final (act_then (create_stream api clk lid laddr raddr sid kp) (\<lambda>res. case res of
      Inr r \<Rightarrow> accept_dial x api clk sid d touch r | Inl e \<Rightarrow> act_return Pending)) L = L \<or>
    accepted_from raddr sid L
      (final (act_then (create_stream api clk lid laddr raddr sid kp) (\<lambda>res. case res of
        Inr r \<Rightarrow> accept_dial x api clk sid d touch r | Inl e \<Rightarrow> act_return Pending)) L)"
proof -
  have acc: "accepted_from raddr sid L (final (accept_dial x api clk sid d touch (next_ref L))
      (add_stream raddr (stream_init clk lid laddr raddr t sid kp) L))" for t
  proof -
    have "stream_at (next_ref L) (add_stream raddr (stream_init clk lid laddr raddr t sid kp) L) =
        Some (stream_init clk lid laddr raddr t sid kp)"
      by (simp add: add_stream_stream_at)
    from final_accept_dial [OF this assms] show ?thesis
      by (fastforce simp: accepted_from_def set_stream_add_stream)
  qed
  show ?thesis
    using acc by (auto simp: final_then create_stream_def stream_new_def split: prod.split option.split)
qed

lemma final_handle_stream:
  assumes s: "stream_at r L = Some s"
    and L'_def: "L' = final (handle_stream x api clk laddr sid raddr sg del k d kp lid r) L"
  shows "streams L' = streams L \<or>
    message_type d = DialMsg \<and> status s = Active \<and> get_remote_stream_id s < sid \<and> accepted_from raddr sid L L'"
proof (cases "status s = Active \<and> message_type d = DialMsg \<and> get_remote_stream_id s < sid")
  case True
  then have "L' = final (act_then (create_stream api clk lid laddr raddr sid kp) (\<lambda>res. case res of
      Inr r' \<Rightarrow> accept_dial x api clk sid d (\<lambda>s. s) r' | Inl e \<Rightarrow> act_return Pending)) L"
    using s by (auto simp: L'_def final_def handle_stream_def with_stream_def handle_active_def)
  then show ?thesis
    using final_create_accept [OF message_type_length(1), of d "\<lambda>s. s"] True by metis
next
  case False
  have "act_keeps (same_map (streams L)) (case status s of
      Dial \<Rightarrow> handle_dial x api clk laddr (message_type d) sid raddr d r
    | Listen \<Rightarrow> handle_listen x api clk (message_type d) sid sg del k d r
    | Active \<Rightarrow> handle_active x api clk lid laddr (message_type d) sid raddr sg del k d kp r
    | Expired \<Rightarrow> act_return Pending)" if "status s = Active \<longrightarrow> message_type d \<noteq> DialMsg"
    using that by (cases "status s")
      (auto intro: same_map_handle_dial same_map_handle_listen same_map_handle_active keeps_return)
  note keep = act_keepsD [OF this, of L]
  have "streams L' = streams L"
  proof (cases "status s = Active \<and> message_type d = DialMsg")
    case True
    with False s show ?thesis
      by (simp add: L'_def final_def handle_stream_def with_stream_def handle_active_def act_return_def)
  next
    case False
    then show ?thesis
      using keep s by (auto simp: L'_def final_def handle_stream_def with_stream_def act_return_def)
  qed
  then show ?thesis by blast
qed

text \<open>Why a packet may change the map: a DIAL of a stranger, or a newer one of a known node.\<close>

definition new_dial :: "ext \<Rightarrow> VeilidUpdate \<Rightarrow> Address \<Rightarrow> u64 \<Rightarrow> Listener \<Rightarrow> bool" where
  "new_dial x u a sid L \<longleftrightarrow>
     (\<exists>w del k d sg. u = UpdateAppMessage w \<and> decode_message x w = Return (Inr (del, k, sid, a, d, sg)) \<and>
        message_type d = DialMsg) \<and>
     (case lookup_stream a L of
        None \<Rightarrow> True
      | Some (r, s) \<Rightarrow> status s = Active \<and> get_remote_stream_id s \<noteq> 0 \<and> get_remote_stream_id s < sid)"

lemma final_handle_packet:
  assumes "u = UpdateAppMessage w" and "decode_message x w = Return (Inr (del, k, sid, a, d, sg))"
    and L'_def: "L' = final (handle_packet x api clk (del, k, sid, a, d, sg)) L"
  shows "streams L' = streams L \<or> new_dial x u a sid L \<and> accepted_from a sid L L'"
proof (cases "l_local_address L")
  case None
  then show ?thesis
    by (auto simp: L'_def final_def handle_packet_def Let_def split: option.split)
next
  case (Some laddr)
  show ?thesis
  proof (cases "lookup_stream a L")
    case None
    then have L': "L' = final (handle_no_stream x api clk (l_id L) laddr (message_type d) sid a d (l_my_keypair L)) L"
      using Some by (simp add: L'_def final_def handle_packet_def)
    show ?thesis
    proof (cases "message_type d = DialMsg")
      case True
      then have "L' = L \<or> accepted_from a sid L L'"
        unfolding L' handle_no_stream_def using message_type_length(1) [OF True]
        by (simp, intro final_create_accept) (simp_all add: stream_defs)
      then show ?thesis using True None assms(1,2) by (auto simp: new_dial_def)
    next
      case False
      then show ?thesis
        using act_keepsD [OF same_map_handle_no_stream refl] unfolding L' by blast
    qed
  next
    case (Some rs)
    obtain r s where rs: "rs = (r, s)" by fastforce
    define L1 where "L1 = (if get_remote_stream_id s = 0
      then on_stream r (update_remote_stream_id sid) L else L)"
    define s1 where "s1 = (if get_remote_stream_id s = 0 then update_remote_stream_id sid s else s)"
    have r: "stream_at r L = Some s" using lookup_streamD [of a L r s] Some rs by simp
    then have r1: "stream_at r L1 = Some s1" by (simp add: L1_def s1_def)
    have L': "L' = final (handle_stream x api clk laddr sid a
        (verify_signature x (remote_public_key s) d sg) del k d (l_my_keypair L) (l_id L) r) L1"
      using Some rs \<open>l_local_address L = Some laddr\<close>
      by (simp add: L'_def L1_def final_def handle_packet_def)
    have map1: "streams L1 = streams L" by (simp add: L1_def)
    have newer: "get_remote_stream_id s \<noteq> 0 \<and> s1 = s \<and> L1 = L" if "get_remote_stream_id s1 < sid"
      using that by (auto simp: s1_def L1_def stream_defs split: if_splits)
    show ?thesis
      using final_handle_stream [OF r1 L'] newer Some rs assms(1,2)
      unfolding new_dial_def by (auto simp: map1)
  qed
qed

lemma same_map_try_online: "act_keeps (same_map m) (try_online x api clk tt)"
  by (cases tt) (auto simp: act_keeps_def final_def try_online_def Let_def act_defs
    split: option.splits run.splits sum.splits prod.splits)

lemma same_map_other_updates:
  assumes "\<And>w. u \<noteq> UpdateAppMessage w"
  shows "streams (final (convert_update x api clk u) L) = streams L"
proof (cases u)
  case (UpdateAttachment st ready)
  obtain L1 b where na: "note_attachment st ready L = (L1, b)" by fastforce
  then have L1: "streams L1 = streams L" by (auto simp: note_attachment_def Let_def)
  have "act_keeps (same_map (streams L))
      (act_then (if b then try_online x api clk (transport_type L1) else act_return None)
       (\<lambda>addr. case addr of
            None \<Rightarrow> act_return Pending
          | Some listen_addr \<Rightarrow>
              act_then (act_modify (\<lambda>L. L\<lparr>l_status := Online\<rparr>)) (\<lambda>_.
              act_then (act_get l_id) (\<lambda>lid.
                act_return (Ready (Some (NewAddress lid listen_addr)))))))"
    by (auto intro!: keeps same_map_try_online split: option.split)
  from act_keepsD [OF this L1] show ?thesis
    by (simp add: UpdateAttachment convert_update_def handle_attachment_def final_def na)
next
  case (UpdateConfig cfg)
  have "streams (handle_config cfg L) = streams L"
    by (auto simp: handle_config_def Let_def split: option.split VeilidTransportType.split)
  with UpdateConfig show ?thesis by (simp add: convert_update_def final_def act_defs)
qed (use assms in \<open>auto simp: convert_update_def handle_route_change_def final_def act_defs
        split: option.splits\<close>)

lemma same_store_other_updates:
  assumes "\<And>w. u \<noteq> UpdateAppMessage w"
  shows "store (final (convert_update x api clk u) L) = store L \<and>
    next_ref (final (convert_update x api clk u) L) = next_ref L"
proof (cases u)
  case (UpdateAttachment st ready)
  let ?P = "\<lambda>L'. store L' = store L \<and> next_ref L' = next_ref L"
  obtain L1 b where na: "note_attachment st ready L = (L1, b)" by fastforce
  then have L1: "?P L1" by (auto simp: note_attachment_def Let_def)
  have "act_keeps ?P (try_online x api clk tt)" for tt
    by (cases tt) (auto simp: act_keeps_def final_def try_online_def Let_def act_defs
      split: option.splits run.splits sum.splits prod.splits)
  moreover have "act_keeps ?P (act_modify (\<lambda>L. L\<lparr>l_status := Online\<rparr>))"
    by (rule keeps_modify) simp
  ultimately have "act_keeps ?P
      (act_then (if b then try_online x api clk (transport_type L1) else act_return None)
       (\<lambda>addr. case addr of
            None \<Rightarrow> act_return Pending
          | Some listen_addr \<Rightarrow>
              act_then (act_modify (\<lambda>L. L\<lparr>l_status := Online\<rparr>)) (\<lambda>_.
              act_then (act_get l_id) (\<lambda>lid.
                act_return (Ready (Some (NewAddress lid listen_addr)))))))"
    by (auto intro!: keeps split: option.split)
  from act_keepsD [OF this L1] show ?thesis
    by (simp add: UpdateAttachment convert_update_def handle_attachment_def final_def na)
next
  case (UpdateConfig cfg)
  have "store (handle_config cfg L) = store L \<and> next_ref (handle_config cfg L) = next_ref L"
    by (auto simp: handle_config_def Let_def split: option.split VeilidTransportType.split)
  with UpdateConfig show ?thesis by (simp add: convert_update_def final_def act_defs)
qed (use assms in \<open>auto simp: convert_update_def handle_route_change_def final_def act_defs
        split: option.splits\<close>)

lemma final_convert_update:
  "streams (final (convert_update x api clk u) L) = streams L \<or>
    (\<exists>a sid. new_dial x u a sid L \<and> accepted_from a sid L (final (convert_update x api clk u) L))"
proof (cases "\<exists>w pkt. u = UpdateAppMessage w \<and> decode_message x w = Return (Inr pkt)")
  case True
  then obtain w del k sid a d sg where w: "u = UpdateAppMessage w"
    "decode_message x w = Return (Inr (del, k, sid, a, d, sg))" by (metis prod_cases6)
  have "convert_update x api clk u = handle_packet x api clk (del, k, sid, a, d, sg)"
    by (simp add: w convert_update_def handle_app_message_def)
  with final_handle_packet [OF w refl, of api clk L] show ?thesis by auto
next
  case False
  then show ?thesis
    using same_map_other_updates [of u x api clk L]
    by (cases u) (auto simp: convert_update_def handle_app_message_def final_def act_defs
        split: run.split sum.split)
qed

subsection \<open>The property\<close>

text \<open>
  C15: Where the stream of an address goes when an update is converted. The object keeps its
  addresses, target, own stream id and keys, and its status is the same or goes from \<open>Dial\<close> to
  \<open>Listen\<close> or \<open>Active\<close>, or from \<open>Listen\<close> to \<open>Active\<close>. The map still leads to it from its address,
  or else the update is a DIAL of that address with a stream id above that of an active stream:
  then the address has a new stream in state \<open>Listen\<close> with that id, and the old object is
  unchanged. An address without a stream gets one only by its own DIAL.
\<close>

theorem streams_move_forward:
  assumes "listener_reach x L" and "convert_update x api clk u L = (res, L', calls)"
  shows "(\<forall>r s. lookup_stream a L = Some (r, s) \<longrightarrow>
      (\<exists>s'. stream_at r L' = Some s' \<and>
        local_address s' = local_address s \<and> remote_address s' = remote_address s \<and>
        remote_target s' = remote_target s \<and> my_stream_id s' = my_stream_id s \<and>
        my_keypair s' = my_keypair s \<and>
        (status s' = status s \<or>
         (status s, status s') \<in> {(Dial, Listen), (Dial, Active), (Listen, Active)}) \<and>
        (lookup_stream a L' = Some (r, s') \<or>
         (\<exists>sid n. new_dial x u a sid L \<and> status s = Active \<and> get_remote_stream_id s < sid \<and> s' = s \<and>
            stream_at (next_ref L) L = None \<and> lookup_stream a L' = Some (next_ref L, n) \<and>
            status n = Listen \<and> get_remote_stream_id n = sid)))) \<and>
    (lookup_stream a L = None \<longrightarrow> lookup_stream a L' \<noteq> None \<longrightarrow> (\<exists>sid. new_dial x u a sid L))"
proof -
  have wf: "listener_wf L" by (rule listener_reach_wf [OF assms(1)])
  have ev: "evolved L L'"
    using evolved_convert_update [OF wf, of x api clk u] assms(2) by (simp add: final_def)
  have fresh: "stream_at (next_ref L) L = None"
    using wf by (auto simp: listener_wf_def stream_at_def)
  have L': "streams L' = streams L \<or> (\<exists>b sid. new_dial x u b sid L \<and> accepted_from b sid L L')"
    using final_convert_update [of x api clk u L] assms(2) by (simp add: final_def)
  have moved: "\<exists>s'. stream_at r L' = Some s' \<and> same_identity s s' \<and> status_moves (status s) (status s')"
    if "lookup_stream a L = Some (r, s)" for r s
    using evolved_stream [OF ev] lookup_streamD [OF that] by blast
  from L' show ?thesis
  proof
    assume map: "streams L' = streams L"
    then have "lookup_stream a L' = Some (r, s')" if "lookup_stream a L = Some (r, s)" "stream_at r L' = Some s'"
      for r s s' using that lookup_streamD [OF that(1)] by (simp add: lookup_stream_def)
    moreover have "lookup_stream a L' = None" if "lookup_stream a L = None"
    proof -
      have "hm_get a (streams L) = None"
        using listener_wf_lookup [OF wf, of a] that by (cases "hm_get a (streams L)") auto
      with map show ?thesis by (simp add: lookup_stream_def)
    qed
    ultimately show ?thesis
      using moved by (fastforce simp: same_identity_def status_moves_def status_step_simps)
  next
    assume "\<exists>b sid. new_dial x u b sid L \<and> accepted_from b sid L L'"
    then obtain b sid n where b: "new_dial x u b sid L" "L' = add_stream b n L" "status n = Listen"
      "get_remote_stream_id n = sid" by (auto simp: accepted_from_def)
    have look: "lookup_stream a L' = (if a = b then Some (next_ref L, n) else lookup_stream a L)"
      unfolding b(2) using add_stream_lookup [OF wf] by simp
    have same: "stream_at r L' = Some s" if "lookup_stream a L = Some (r, s)" for r s
      using lookup_streamD [OF that] fresh unfolding b(2) by (auto simp: add_stream_stream_at)
    show ?thesis
    proof (cases "a = b")
      case True
      then show ?thesis
        using b look same fresh by (auto simp: new_dial_def)
    next
      case False
      then show ?thesis using look same by auto
    qed
  qed
qed

text \<open>The stream a dial has made stays in the map when a message that is no payload arrives.\<close>

lemma streams_move_forward_witness:
  "\<exists>s'. lookup_stream (sample_address 2) (fst (snd (convert_update sample_ext sample_api sample_clock
      (UpdateAppMessage []) dialed_listener))) = Some (0, s') \<and> status s' \<noteq> Expired"
proof -
  have at: "lookup_stream (sample_address 2) dialed_listener = Some (0, stream_init sample_clock 0
     (sample_address 1) (sample_address 2) (NodeIdTarget (CryptoTyped VLD0 (NodeId [2]))) 0 (Keypair [1]))"
    by (simp add: dialed_listener_eval add_stream_lookup) (simp add: listener_new_def)
  obtain res L' calls where cu: "convert_update sample_ext sample_api sample_clock
      (UpdateAppMessage []) dialed_listener = (res, L', calls)" by (metis prod_cases3)
  from streams_move_forward [OF dialed_listener_reach cu, of "sample_address 2"] at show ?thesis
    by (auto simp: cu)
qed

end
