(* ===== verification/Listener_Expiry.thy ===== *)
theory Listener_Expiry
  imports Listener_Map
begin

text \<open>
  An active stream that was silent for 20 seconds stays as it is: no update revives it or puts
  bytes into it, and its connection gets errors. The proof keeps \<open>silent\<close> through the handlers.
\<close>

definition silent :: "nat \<Rightarrow> VeilidStream \<Rightarrow> Listener \<Rightarrow> bool" where
  "silent r s L \<longleftrightarrow> r < next_ref L \<and> (\<exists>s'. stream_at r L = Some s' \<and> status s' = Active \<and>
     inbound_last_timestamp s' = inbound_last_timestamp s \<and> inbound_stream s' = inbound_stream s \<and>
     get_inbound_received_seq s' = get_inbound_received_seq s)"

text \<open>Work on another stream.\<close>

lemma silent_on_other [keeps]:
  "r' \<noteq> r \<Longrightarrow> act_keeps (silent r s) (act_modify (on_stream r' f))"
  by (rule keeps_modify) (auto simp: silent_def)

lemma silent_set_other [keeps]:
  "r' \<noteq> r \<Longrightarrow> act_keeps (silent r s) (act_modify (set_stream r' t))"
  by (rule keeps_modify) (auto simp: silent_def)

lemma silent_extract_key [keeps]: "r' \<noteq> r \<Longrightarrow> act_keeps (silent r s) (extract_key x tag d r')"
  unfolding extract_key_def by (auto intro!: keeps)

lemma silent_flush [keeps]:
  "r' \<noteq> r \<Longrightarrow> act_keeps (silent r s) (with_stream r' (\<lambda>s. case send_messages x api now s of
     (calls, s') \<Rightarrow> act_then (act_modify (set_stream r' s')) (\<lambda>_. act_calls calls)))"
  by (rule keeps_with_stream) (auto intro!: keeps split: prod.split)

lemma silent_accept_dial: "r' \<noteq> r \<Longrightarrow> act_keeps (silent r s) (accept_dial x api clk sid d touch r')"
  unfolding accept_dial_def by (auto intro!: keeps)

lemma silent_create_accept [keeps]:
  "act_keeps (silent r s) (act_then (create_stream api clk lid laddr raddr sid kp) (\<lambda>res. case res of
     Inr r' \<Rightarrow> accept_dial x api clk sid d touch r' | Inl e \<Rightarrow> act_return Pending))"
  unfolding act_keeps_def
proof (intro allI impI)
  fix L assume L: "silent r s L"
  then have new: "silent r s (add_stream raddr t L)" "next_ref L \<noteq> r" for t
    by (auto simp: silent_def add_stream_stream_at)
  from L act_keepsD [OF silent_accept_dial [OF new(2)] new(1)]
  show "silent r s (final (act_then (create_stream api clk lid laddr raddr sid kp) (\<lambda>res. case res of
     Inr r' \<Rightarrow> accept_dial x api clk sid d touch r' | Inl e \<Rightarrow> act_return Pending)) L)"
    by (auto simp: final_then create_stream_def stream_new_def split: prod.split option.split)
qed

lemma silent_handlers:
  assumes "r' \<noteq> r"
  shows "act_keeps (silent r s) (handle_dial x api clk laddr mt sid raddr d r')"
    and "act_keeps (silent r s) (handle_listen x api clk mt sid sg del k d r')"
    and "act_keeps (silent r s) (handle_active x api clk lid laddr mt sid raddr sg del k d kp r')"
proof -
  show "act_keeps (silent r s) (handle_dial x api clk laddr mt sid raddr d r')"
    unfolding handle_dial_def using assms
    by (cases mt; cases "address_cmp x raddr laddr") (auto intro!: keeps)
  show "act_keeps (silent r s) (handle_listen x api clk mt sid sg del k d r')"
    unfolding handle_listen_def using assms by (cases mt) (auto intro!: keeps)
  show "act_keeps (silent r s) (handle_active x api clk lid laddr mt sid raddr sg del k d kp r')"
    unfolding handle_active_def using assms by (cases mt) (auto intro!: keeps)
qed

text \<open>Work on the silent stream itself.\<close>

lemma recv_message_inactive:
  "\<not> is_active now s \<Longrightarrow> recv_message now del k d s = s \<or>
     (\<exists>q. recv_message now del k d s = s\<lparr>inbound_message_queue := q\<rparr>)"
  by (auto simp: recv_message_def Let_def)

lemma silent_on_stream:
  assumes "\<not> heard_recently now s" and "silent r s L"
  shows "silent r s (on_stream r (active_status del) L)"
    and "silent r s (on_stream r (active_data now sg del k d) L)"
    and "silent r s (on_stream r (update_remote_stream_id i) L)"
proof -
  from assms(2) obtain s' where r: "r < next_ref L" "stream_at r L = Some s'"
    and s': "status s' = Active" "inbound_last_timestamp s' = inbound_last_timestamp s"
      "inbound_stream s' = inbound_stream s" "get_inbound_received_seq s' = get_inbound_received_seq s"
    by (auto simp: silent_def)
  have "\<not> is_active now (update_status Active s')"
    using assms(1) s'(2) by (simp add: is_active_def heard_recently_def update_status_def)
  from recv_message_inactive [OF this, of del k d]
  show "silent r s (on_stream r (active_data now sg del k d) L)"
    using r s' by (auto simp: silent_def active_data_def update_status_def get_inbound_received_seq_def)
  show "silent r s (on_stream r (active_status del) L)"
    using r s' by (simp add: silent_def active_status_def remove_sent_messages_from_queue_def stream_defs Let_def)
  show "silent r s (on_stream r (update_remote_stream_id i) L)"
    using r s' by (simp add: silent_def stream_defs)
qed

lemma silent_handle_active:
  assumes "\<not> heard_recently (instant_now clk) s"
  shows "act_keeps (silent r s) (handle_active x api clk lid laddr mt sid raddr sg del k d kp r')"
proof (cases "r' = r")
  case True
  show ?thesis
    unfolding handle_active_def True using silent_on_stream [OF assms]
    by (cases mt) (auto intro!: keeps keeps_modify)
qed (rule silent_handlers)

lemma silent_handle_stream:
  assumes "\<not> heard_recently (instant_now clk) s" and "silent r s L"
  shows "silent r s (final (handle_stream x api clk laddr sid raddr sg del k d kp lid r') L)"
proof (cases "stream_at r' L")
  case None
  with assms(2) show ?thesis by (simp add: final_def handle_stream_def with_stream_def)
next
  case (Some t)
  have "act_keeps (silent r s) (case status t of
      Dial \<Rightarrow> handle_dial x api clk laddr (message_type d) sid raddr d r'
    | Listen \<Rightarrow> handle_listen x api clk (message_type d) sid sg del k d r'
    | Active \<Rightarrow> handle_active x api clk lid laddr (message_type d) sid raddr sg del k d kp r'
    | Expired \<Rightarrow> act_return Pending)"
  proof (cases "r' = r")
    case True
    then have "status t = Active" using assms(2) Some by (auto simp: silent_def)
    then show ?thesis using silent_handle_active [OF assms(1)] by simp
  next
    case False
    then show ?thesis
      by (cases "status t") (auto intro: silent_handlers keeps_return)
  qed
  from act_keepsD [OF this assms(2)] assms(2) Some show ?thesis
    by (simp add: final_def handle_stream_def with_stream_def act_return_def)
qed

lemma silent_handle_packet:
  assumes "\<not> heard_recently (instant_now clk) s" and "silent r s L"
  shows "silent r s (final (handle_packet x api clk pkt) L)"
proof -
  obtain del k sid a d sg where pkt: "pkt = (del, k, sid, a, d, sg)" by (cases pkt) auto
  let ?L1 = "case lookup_stream a L of
      Some (r', t) \<Rightarrow> (if get_remote_stream_id t = 0
                     then on_stream r' (update_remote_stream_id sid) L else L)
    | None \<Rightarrow> L"
  have on: "silent r s (on_stream r' (update_remote_stream_id sid) L)" for r'
    using silent_on_stream(3) [OF assms] assms(2) by (cases "r' = r") (auto simp: silent_def)
  then have L1: "silent r s ?L1" using assms(2) by (auto split: option.split)
  have "act_keeps (silent r s) (act_modify (\<lambda>L. L\<lparr>l_local_target := (fst (l_local_target L), TargetActive t)\<rparr>))" for t
    by (rule keeps_modify) (simp add: silent_def stream_at_def)
  then have "act_keeps (silent r s) (handle_no_stream x api clk lid laddr mt sid a d kp)" for lid laddr mt kp
    unfolding handle_no_stream_def by (cases mt) (auto intro!: keeps)
  note step = act_keepsD [OF this L1, unfolded final_def]
    silent_handle_stream [OF assms(1) L1, unfolded final_def]
  show ?thesis
    using L1 step
    by (cases "l_local_address ?L1"; cases "lookup_stream a L")
      (auto simp: final_def handle_packet_def pkt Let_def)
qed

lemma silent_convert_update:
  assumes "\<not> heard_recently (instant_now clk) s" and "silent r s L"
  shows "silent r s (final (convert_update x api clk u) L)"
proof (cases "\<exists>w. u = UpdateAppMessage w")
  case True
  then show ?thesis
    using silent_handle_packet [OF assms] assms(2)
    by (auto simp: convert_update_def handle_app_message_def final_def act_defs split: run.split sum.split)
next
  case False
  then have "store (final (convert_update x api clk u) L) = store L"
    "next_ref (final (convert_update x api clk u) L) = next_ref L"
    using same_store_other_updates [of u x api clk L] by auto
  with assms(2) show ?thesis by (simp add: silent_def stream_at_def)
qed

text \<open>
  C39: A stream that fell silent stays silent. Once nothing in sequence has arrived on an active
  stream for 20 seconds, no update that is converted later, whatever message it is, revives it:
  it takes in nothing, its status is reported as \<open>Expired\<close>, and reads and writes of its
  connection fail without changing it, from then on.
\<close>

theorem expired_stays_expired:
  assumes "listener_wf L" and "stream_at r L = Some s"
    and "status s = Active" and "is_expired (instant_now clk) s"
    and "convert_update x api clk u L = (res, L', calls)"
  shows "\<exists>s'. stream_at r L' = Some s' \<and> inbound_stream s' = inbound_stream s \<and>
    get_inbound_received_seq s' = get_inbound_received_seq s \<and>
    (\<forall>t \<ge> instant_now clk. is_expired t s' \<and> get_status t s' = Inr Expired \<and>
       poll_read t w n s' = (Ready (Inl ''Stream is inactive''), s') \<and>
       poll_write t d s' = (Ready (Inl ''Stream is inactive''), s', False))"
proof -
  have heard: "\<not> heard_recently (instant_now clk) s" using assms(3,4) by (simp add: is_expired_def)
  have "silent r s L"
    using assms(1-3) by (auto simp: silent_def listener_wf_def stream_at_def)
  from silent_convert_update [OF heard this, of x api u] have "silent r s L'"
    using assms(5) by (simp add: final_def)
  then obtain s' where s': "stream_at r L' = Some s'" "status s' = Active"
    "inbound_last_timestamp s' = inbound_last_timestamp s" "inbound_stream s' = inbound_stream s"
    "get_inbound_received_seq s' = get_inbound_received_seq s" by (auto simp: silent_def)
  have "\<not> heard_recently t s'" if "instant_now clk \<le> t" for t
    using heard that s'(3) by (simp add: heard_recently_def)
  with s' show ?thesis
    by (intro exI [of _ s']) (simp add: is_expired_def get_status_def poll_read_def poll_write_def)
qed

lemma expired_stays_expired_witness:
  "\<exists>s'. stream_at 0 (fst (snd (convert_update sample_ext sample_api late_clock
      (UpdateAppMessage sample_wire) busy_listener))) = Some s' \<and> inbound_stream s' = [] \<and>
    get_status (secs 30) s' = Inr Expired"
proof -
  obtain res L' calls where cu: "convert_update sample_ext sample_api late_clock
      (UpdateAppMessage sample_wire) busy_listener = (res, L', calls)" by (metis prod_cases3)
  have s: "stream_at 0 busy_listener = Some (sample_stream 2 1)"
    using lookup_streamD [OF busy_listener_ok(3)] by simp
  have e: "is_expired (instant_now late_clock) (sample_stream 2 1)"
    by (simp add: is_expired_def heard_recently_def late_clock_def secs_def)
  have "instant_now late_clock = secs 30" by (simp add: late_clock_def)
  with expired_stays_expired [OF busy_listener_ok(1) s _ e cu, where w = 0 and n = 0 and d = "[]"]
  show ?thesis by (fastforce simp: cu)
qed

end
