(* ===== verification/Stream_Claims.thy ===== *)
theory Stream_Claims
  imports Sample_Run
begin

text \<open>
  The promises of one stream (\<open>src/src/stream.rs\<close>), operation by operation:
  cutting and numbering, sending and resending, ordering with its window and its bounds, framing,
  the wire format, and the end of the numbers.
\<close>

subsection \<open>Cutting and numbering\<close>

text \<open>
  C18: \<open>generate_messages\<close> cuts the outbound bytes completely: the new messages, in the order of
  their numbers after the last one, carry chunks of at most 32623 bytes (all but the last
  full) that make up exactly the outbound bytes; the older messages are untouched.
\<close>

theorem generate_messages_cuts:
  assumes "get_outbound_last_seq s = of_nat n"
    and "n + length (chunks_of 32623 (outbound_stream s)) < 4294967296"
  shows "\<exists>cs. concat cs = outbound_stream s \<and>
    (\<forall>c \<in> set cs. 0 < length c \<and> length c \<le> 32623) \<and>
    (\<forall>i. Suc i < length cs \<longrightarrow> length (cs ! i) = 32623) \<and>
    get_outbound_last_seq (generate_messages s) = of_nat (n + length cs) \<and>
    outbound_stream (generate_messages s) = [] \<and>
    (\<forall>k. hm_get k (outbound_message_queue (generate_messages s)) =
       (if n < unat k \<and> unat k \<le> n + length cs
        then Some \<lparr>seq = k, data = cs ! (unat k - Suc n), last_try_send = None\<rparr>
        else hm_get k (outbound_message_queue s)))"
  using generate_messages_spec [OF assms] concat_chunks_of [of 32623 "outbound_stream s"]
    chunks_of_bounds [of 32623 _ "outbound_stream s"] chunks_of_full [of 32623 _ "outbound_stream s"]
  by (intro exI [of _ "chunks_of 32623 (outbound_stream s)"]) simp

lemma generate_messages_cuts_witness:
  "outbound_stream (generate_messages ((sample_stream 1 2)\<lparr>outbound_stream := replicate 40000 7\<rparr>)) = [] \<and>
   get_outbound_last_seq (generate_messages ((sample_stream 1 2)\<lparr>outbound_stream := replicate 40000 7\<rparr>)) = 2"
proof -
  let ?s = "(sample_stream 1 2)\<lparr>outbound_stream := replicate 40000 7\<rparr>"
  have cs: "chunks_of 32623 (replicate 40000 7) = [replicate 32623 7, replicate 7377 (7 :: byte)]"
    by (subst chunks_of.simps, simp, subst chunks_of.simps, simp)
  have 0: "get_outbound_last_seq ?s = of_nat 0" by (simp add: get_outbound_last_seq_def)
  from generate_messages_cuts [OF this] cs obtain cs' where
    "concat cs' = replicate 40000 (7 :: byte)" "\<forall>c \<in> set cs'. 0 < length c \<and> length c \<le> 32623"
    "outbound_stream (generate_messages ?s) = []" by auto
  moreover have "get_outbound_last_seq (generate_messages ?s) = of_nat (0 + 2)"
    using generate_messages_spec(1) [OF 0] cs by simp
  ultimately show ?thesis by simp
qed

subsection \<open>Sending\<close>

text \<open>What was tried now is not due again before the interval is over.\<close>

lemma sent_once_in_interval:
  assumes wf: "outbound_queue_wf (outbound_message_queue s)"
    and s': "outbound_message_queue s' = mark_sent now (messages_to_send now s) (outbound_message_queue s)"
    and "now' < now + secs 5"
    and "m \<in> set (messages_to_send now s)" and "m' \<in> set (messages_to_send now' s')"
  shows "seq m' \<noteq> seq m"
proof
  assume eq: "seq m' = seq m"
  have wf': "outbound_queue_wf (outbound_message_queue s')"
    unfolding s' by (rule mark_sent_queue_wf [OF wf])
  have m: "hm_get (seq m) (outbound_message_queue s) = Some m" "due now m"
    using assms(4) by (simp_all add: messages_to_send_iff [OF wf])
  have m': "hm_get (seq m') (outbound_message_queue s') = Some m'" "due now' m'"
    using assms(5) by (simp_all add: messages_to_send_iff [OF wf'])
  have "m' = m\<lparr>last_try_send := Some now\<rparr>"
    using m m'(1) unfolding s' eq mark_messages_to_send_get [OF wf] by simp
  with m'(2) assms(3) show False by (simp add: due_iff)
qed



subsection \<open>Ordering\<close>

text \<open>
  C19: Receiving is idempotent: taking in the same message twice in a row is taking it in once,
  whether it is old, early, next in order or out of the window.
\<close>

theorem receive_twice:
  assumes "early_window (get_inbound_received_seq s) (inbound_message_queue s)"
    and "unat (get_inbound_received_seq s) < 4294967275"
  shows "recv_message now del k d (recv_message now del k d s) = recv_message now del k d s"
proof -
  let ?c = "get_inbound_received_seq s" and ?s' = "recv_message now del k d s"
  have c1: "unat (?c + 1) = unat ?c + 1" using assms(2) by (simp add: unat_word_ariths)
  consider (dup) "k \<le> ?c" | (early) "\<not> k \<le> ?c" "k > ?c + 1"
    | (off) "\<not> k \<le> ?c" "\<not> k > ?c + 1" "\<not> is_active now s"
    | (nxt) "\<not> k \<le> ?c" "\<not> k > ?c + 1" "is_active now s" by blast
  then show ?thesis
  proof cases
    case early
    show ?thesis
    proof (cases "k < ?c + 20")
      case True
      let ?t = "s\<lparr>inbound_message_queue := hm_insert k d (inbound_message_queue s)\<rparr>"
      have "?s' = ?t" using True by (simp add: recv_message_early [OF early])
      moreover have "get_inbound_received_seq ?t = ?c" by (simp add: get_inbound_received_seq_def)
      ultimately show ?thesis
        using early True recv_message_early [of k ?t now del d] by (simp add: hm_insert_twice)
    qed (simp add: recv_message_early [OF early])
  next
    case nxt
    have keys: "hm_wf (inbound_message_queue s)"
      "\<forall>k d. hm_get k (inbound_message_queue s) = Some d \<longrightarrow>
         unat (?c + 1) < unat k \<and> unat k < unat ?c + 20"
      using assms(1) c1 by (auto simp: early_window_def)
    from drain_queue_window [OF keys(1) _ _ keys(2), of "inbound_buffer s @ d"] obtain f q b where
      dr: "drain_queue (?c + 1) (inbound_message_queue s) (inbound_buffer s @ d) = (f, q, b)"
        "unat (?c + 1) \<le> unat f"
      using c1 assms(2) by auto
    have "get_inbound_received_seq ?s' = f"
      unfolding recv_message_next [OF nxt dr(1)]
      by (simp add: stream_defs remove_sent_messages_from_queue_def)
    moreover have "k \<le> f" using nxt(2) dr(2) by (simp add: not_less word_le_nat_alt)
    ultimately show ?thesis by (simp add: recv_message_duplicate)
  qed (simp_all add: recv_message_duplicate recv_message_next_inactive)
qed

lemma receive_twice_witness:
  "recv_message 0 0 3 [1] (recv_message 0 0 3 [1] (sample_stream 2 1)) =
     recv_message 0 0 3 [1] (sample_stream 2 1)"
  by (rule receive_twice) (simp_all add: get_inbound_received_seq_def)

lemma early_window_length:
  assumes "early_window c q"
  shows "length q \<le> 18"
proof -
  have d: "distinct (map fst q)" using assms by (simp add: early_window_def hm_wf_def)
  have "unat ` set (map fst q) \<subseteq> {unat c + 2 ..< unat c + 20}"
  proof
    fix n assume "n \<in> unat ` set (map fst q)"
    then obtain k v where "(k, v) \<in> set q" "n = unat k" by auto
    then have "hm_get k q = Some v" using d by (simp add: hm_get_def)
    then have "unat c + 1 < unat k" "unat k < unat c + 20"
      using assms unfolding early_window_def by blast+
    with \<open>n = unat k\<close> show "n \<in> {unat c + 2 ..< unat c + 20}" by simp
  qed
  then have "card (unat ` set (map fst q)) \<le> card {unat c + 2 ..< unat c + 20}"
    by (intro card_mono) simp_all
  moreover have "card (unat ` set (map fst q)) = length q"
    using d by (metis card_image distinct_card inj_on_def length_map word_unat_eq_iff)
  ultimately show ?thesis by simp
qed

text \<open>
  C20: The queue of early messages is bounded: it keeps its keys within the 18 numbers after the
  next one, so it never holds more than 18 messages, and the cursor never goes back.
\<close>

theorem early_messages_bounded:
  assumes "early_window (get_inbound_received_seq s) (inbound_message_queue s)"
    and "unat (get_inbound_received_seq s) < 4294967275"
  shows "early_window (get_inbound_received_seq (recv_message now del k d s))
      (inbound_message_queue (recv_message now del k d s)) \<and>
    length (inbound_message_queue (recv_message now del k d s)) \<le> 18 \<and>
    get_inbound_received_seq s \<le> get_inbound_received_seq (recv_message now del k d s)"
  using recv_message_window [OF assms, of now del k d] early_window_length
  by (auto simp: word_le_nat_alt)

lemma early_messages_bounded_witness:
  "length (inbound_message_queue (recv_message 0 0 3 [1] (sample_stream 2 1))) \<le> 18 \<and>
   hm_get 3 (inbound_message_queue (recv_message 0 0 3 [1] (sample_stream 2 1))) = Some [1]"
proof
  show "length (inbound_message_queue (recv_message 0 0 3 [1] (sample_stream 2 1))) \<le> 18"
    using early_messages_bounded [of "sample_stream 2 1" 0 0 3 "[1]"]
    by (simp add: get_inbound_received_seq_def)
  have "get_inbound_received_seq (sample_stream 2 1) = 0" by (simp add: get_inbound_received_seq_def)
  then show "hm_get 3 (inbound_message_queue (recv_message 0 0 3 [1] (sample_stream 2 1))) = Some [1]"
    by (simp add: recv_message_early)
qed

text \<open>
  C21: The loop that takes early messages out ends, at the first gap: it makes as many steps as
  messages leave the queue, moves the cursor by exactly that many, and stops where the next
  number is missing.
\<close>

theorem drain_stops_at_gap:
  assumes "hm_wf q" and "drain_queue f q b = (f', q', b')"
  shows "length q' \<le> length q \<and> f' = f + of_nat (length q - length q') \<and> hm_get (f' + 1) q' = None \<and>
    prefix b b'"
  using assms
proof (induction f q b rule: drain_queue.induct)
  case (1 f q b)
  show ?case
  proof (cases "hm_get (f + 1) q")
    case None
    with 1(3) show ?thesis by (simp add: drain_queue_absent)
  next
    case (Some d)
    let ?q = "hm_remove (f + 1) q"
    have "length ?q < length q" by (rule length_hm_remove_less [OF Some])
    moreover have "length q \<le> Suc (length ?q)"
    proof -
      have "card (fst ` set q) = length q" "card (fst ` set ?q) = length ?q"
        using 1(2) hm.wf_remove [OF 1(2), of "f + 1"]
        by (metis distinct_card hm_wf_def length_map set_map)+
      moreover have "fst ` set ?q = fst ` set q - {f + 1}"
        by (force simp: hm_remove_def AList.delete_eq)
      moreover have "card (fst ` set q) - card {f + 1} \<le> card (fst ` set q - {f + 1})"
        by (rule diff_card_le_card_Diff) simp
      ultimately show ?thesis by simp
    qed
    ultimately have len: "length q = Suc (length ?q)" by simp
    have "drain_queue (f + 1) ?q (b @ d) = (f', q', b')"
      using 1(3) by (simp add: drain_queue_present [OF Some])
    from 1(1) [OF Some hm.wf_remove [OF 1(2)] this] have
      ih: "length q' \<le> length ?q" "f' = f + 1 + of_nat (length ?q - length q')"
        "hm_get (f' + 1) q' = None" "prefix (b @ d) b'" by blast+
    have "length q - length q' = Suc (length ?q - length q')" using len ih(1) by simp
    then have "f' = f + of_nat (length q - length q')" using ih(2) by (simp only: of_nat_Suc) simp
    moreover have "prefix b b'" using ih(4) by (auto simp: prefix_def)
    ultimately show ?thesis using len ih by simp
  qed
qed

lemma drain_stops_at_gap_witness:
  "drain_queue 1 [(2, [7]), (4, [9])] [] = (2, [(4, [9])], [7]) \<and>
   (2 :: u32) = 1 + of_nat (length [(2 :: u32, [7 :: byte]), (4, [9])] - length [(4 :: u32, [9 :: byte])])"
proof
  show eq: "drain_queue 1 [(2, [7]), (4, [9])] [] = (2, [(4, [9])], [7])"
    by (simp add: drain_queue.simps hm_get_def hm_remove_def)
  have "hm_wf [(2 :: u32, [7 :: byte]), (4, [9])]" by (simp add: hm_wf_def)
  from drain_stops_at_gap [OF this eq]
  show "(2 :: u32) = 1 + of_nat (length [(2 :: u32, [7 :: byte]), (4, [9])] - length [(4 :: u32, [9 :: byte])])"
    by blast
qed

text \<open>
  C26: The numbers of a stream run out and do not start again: message number 0 is never taken
  in, a receiver whose cursor has reached the largest number takes in nothing more, and a
  sender whose counter has reached it numbers its next message 0, so that data is never
  delivered.
\<close>

theorem numbers_run_out:
  "recv_message now del 0 d s = s \<and>
   (get_inbound_received_seq s = - 1 \<longrightarrow> recv_message now del k d s = s) \<and>
   (get_outbound_last_seq s = - 1 \<and> outbound_stream s \<noteq> [] \<and> length (outbound_stream s) \<le> 32623 \<longrightarrow>
      get_outbound_last_seq (generate_messages s) = 0 \<and>
      hm_get 0 (outbound_message_queue (generate_messages s)) =
        Some \<lparr>seq = 0, data = outbound_stream s, last_try_send = None\<rparr>)"
proof (intro conjI impI)
  show "recv_message now del 0 d s = s" by (simp add: recv_message_duplicate)
  show "recv_message now del k d s = s" if "get_inbound_received_seq s = - 1"
    using that by (intro recv_message_duplicate) (simp add: word_order.extremum)
next
  assume s: "get_outbound_last_seq s = - 1 \<and> outbound_stream s \<noteq> [] \<and> length (outbound_stream s) \<le> 32623"
  then have load: "StreamSeq_load (outbound_last_seq s) = - 1" by (simp add: get_outbound_last_seq_def)
  have "generate_messages s = s\<lparr>outbound_stream := [],
      outbound_last_seq := snd (StreamSeq_increment (outbound_last_seq s)),
      outbound_message_queue := hm_insert 0 \<lparr>seq = 0, data = outbound_stream s, last_try_send = None\<rparr>
        (outbound_message_queue s)\<rparr>"
    using s load by (simp add: generate_messages_def generate_loop_step)
  then show "get_outbound_last_seq (generate_messages s) = 0"
    and "hm_get 0 (outbound_message_queue (generate_messages s)) =
        Some \<lparr>seq = 0, data = outbound_stream s, last_try_send = None\<rparr>"
    using load by (simp_all add: get_outbound_last_seq_def)
qed

lemma numbers_run_out_witness:
  "recv_message 0 0 5 [1] (update_inbound_received_seq (- 1) (sample_stream 2 1)) =
     update_inbound_received_seq (- 1) (sample_stream 2 1)"
  using numbers_run_out [of 0 0 "[1]" "update_inbound_received_seq (- 1) (sample_stream 2 1)" 5]
  by (simp add: stream_defs)

subsection \<open>Framing and reading\<close>

text \<open>The writes of a connection, one after the other.\<close>

fun write_all :: "instant \<Rightarrow> bytes list \<Rightarrow> VeilidStream \<Rightarrow> VeilidStream" where
  "write_all now [] s = s"
| "write_all now (d # ds) s = write_all now ds (fst (snd (poll_write now d s)))"

lemma write_all_outbound:
  "\<not> is_expired now s \<Longrightarrow> outbound_stream (write_all now ds s) = outbound_stream s @ framed ds"
proof (induction ds arbitrary: s)
  case (Cons d ds)
  let ?s = "s\<lparr>outbound_stream := outbound_stream s @ frame d\<rparr>"
  have "fst (snd (poll_write now d s)) = ?s"
    using Cons.prems by (simp add: poll_write_def insert_to_outbound_stream_def frame_def Let_def)
  moreover have "\<not> is_expired now ?s"
    using Cons.prems by (simp add: is_expired_def heard_recently_def split: if_splits)
  ultimately show ?case using Cons.IH [of ?s] by simp
qed simp

text \<open>
  C22: Framing is lossless: the bytes a series of writes of less than 4 GiB each puts on an
  outbound stream, put into a receiver's empty buffer at once, become readable as the
  concatenation of the writes, and leave the buffer empty; a waiting reader is woken.
\<close>

theorem writes_become_readable:
  assumes "\<not> is_expired now tx" and "outbound_stream tx = []" and "frames_ok ds"
    and "inbound_buffer rv = outbound_stream (write_all now ds tx)"
  shows "inbound_stream (update_inbound_stream rv) = inbound_stream rv @ concat ds \<and>
    inbound_buffer (update_inbound_stream rv) = [] \<and>
    (ds \<noteq> [] \<and> waker rv = Some w \<longrightarrow> w \<in> set (wakes (update_inbound_stream rv)))"
proof -
  have b: "inbound_buffer rv = framed ds" using assms by (simp add: write_all_outbound)
  have "deframe_loop (inbound_buffer rv) [] = (Used_up, ds, [])"
    using deframe_loop_framed [OF assms(3), of "[]" "[]"] by (simp add: b)
  from update_inbound_stream_cases [OF this] update_inbound_stream_framed [OF b assms(3)]
  show ?thesis by (simp add: wake_to_read_def)
qed

lemma writes_become_readable_witness:
  "inbound_stream (update_inbound_stream ((sample_stream 2 1)\<lparr>inbound_buffer :=
     outbound_stream (write_all 0 [[1, 2], [], [3]] (sample_stream 1 2))\<rparr>)) = [1, 2, 3]"
  using writes_become_readable [of 0 "sample_stream 1 2" "[[1, 2], [], [3]]"]
  by (simp add: is_expired_def)

lemma recv_message_wakes:
  assumes "waker s = Some w" and "inbound_stream s \<noteq> [] \<longrightarrow> w \<in> set (wakes s)"
  shows "inbound_stream (recv_message now del k d s) \<noteq> [] \<longrightarrow>
    w \<in> set (wakes (recv_message now del k d s))"
proof -
  let ?c = "get_inbound_received_seq s"
  consider (same) "recv_message now del k d s = s"
    | (early) "recv_message now del k d s =
        s\<lparr>inbound_message_queue := hm_insert k d (inbound_message_queue s)\<rparr>"
    | (nxt) "\<not> k \<le> ?c" "\<not> k > ?c + 1" "is_active now s"
    by (metis recv_message_duplicate recv_message_early recv_message_next_inactive)
  then show ?thesis
  proof cases
    case nxt
    obtain f q b where dr: "drain_queue (?c + 1) (inbound_message_queue s) (inbound_buffer s @ d) = (f, q, b)"
      by (metis prod_cases3)
    let ?t = "remove_sent_messages_from_queue (update_outbound_delivered_seq del
      (update_inbound_received_seq f (s\<lparr>inbound_message_queue := q, inbound_buffer := b\<rparr>)))"
    have t: "waker ?t = Some w" "inbound_stream ?t \<noteq> [] \<longrightarrow> w \<in> set (wakes ?t)"
      using assms by (simp_all add: stream_defs remove_sent_messages_from_queue_def)
    obtain ex slices rest where dl: "deframe_loop (inbound_buffer ?t) [] = (ex, slices, rest)"
      by (metis prod_cases3)
    have "inbound_stream (update_inbound_stream ?t) \<noteq> [] \<longrightarrow> w \<in> set (wakes (update_inbound_stream ?t))"
    proof (cases "ex = Short_header \<or> slices = []")
      case True
      then have "update_inbound_stream ?t = ?t\<lparr>inbound_buffer := rest\<rparr>"
        using update_inbound_stream_cases [OF dl] by auto
      then show ?thesis using t(2) by simp
    next
      case False
      then have "update_inbound_stream ?t = wake_to_read (?t\<lparr>inbound_buffer := rest,
          inbound_stream := inbound_stream ?t @ concat slices\<rparr>)"
        using update_inbound_stream_cases [OF dl] by simp
      then show ?thesis using t(1) by (simp add: wake_to_read_def)
    qed
    then show ?thesis
      unfolding recv_message_next [OF nxt dr] by (simp add: update_inbound_last_timestamp_to_now_def)
  qed (use assms in simp_all)
qed

fun receive_all :: "(instant \<times> u32 \<times> u32 \<times> bytes) list \<Rightarrow> VeilidStream \<Rightarrow> VeilidStream" where
  "receive_all [] s = s"
| "receive_all ((now, del, k, d) # ms) s = receive_all ms (recv_message now del k d s)"

lemma receive_all_wakes:
  "waker s = Some w \<Longrightarrow> inbound_stream s \<noteq> [] \<longrightarrow> w \<in> set (wakes s) \<Longrightarrow>
     inbound_stream (receive_all ms s) \<noteq> [] \<longrightarrow> w \<in> set (wakes (receive_all ms s))"
proof (induction ms s rule: receive_all.induct)
  case (2 now del k d ms s)
  show ?case
    using 2(1) [OF _ recv_message_wakes [OF 2(2,3)]] 2(2) by simp
qed simp

text \<open>
  C24: No wake-up is lost: a read that finds nothing registers its task, and if any messages
  received after it make bytes readable, that task has been woken.
\<close>

theorem reader_is_woken:
  assumes "poll_read now w n s = (Pending, s')" and "inbound_stream (receive_all ms s') \<noteq> []"
  shows "w \<in> set (wakes (receive_all ms s'))"
proof -
  have "waker s' = Some w" "inbound_stream s' = []"
    using assms(1) by (auto simp: poll_read_def read_inbound_stream_def Let_def split: if_splits)
  with receive_all_wakes [of s' w ms] assms(2) show ?thesis by simp
qed

lemma reader_is_woken_witness:
  "\<exists>s'. poll_read 0 7 16 (sample_stream 2 1) = (Pending, s') \<and>
     inbound_stream (receive_all [(0, 0, 1, frame sample_data)] s') = sample_data \<and>
     7 \<in> set (wakes (receive_all [(0, 0, 1, frame sample_data)] s'))"
proof -
  let ?s = "(sample_stream 2 1)\<lparr>waker := Some 7\<rparr>"
  have pr: "poll_read 0 7 16 (sample_stream 2 1) = (Pending, ?s)"
    by (simp add: poll_read_def read_inbound_stream_def is_expired_def)
  have dq: "drain_queue (get_inbound_received_seq ?s + 1) (inbound_message_queue ?s)
      (inbound_buffer ?s @ frame sample_data) = (1, [], framed [sample_data])"
    by (simp add: stream_defs drain_queue.simps hm_get_def)
  let ?t = "remove_sent_messages_from_queue (update_outbound_delivered_seq 0
     (update_inbound_received_seq 1 (?s\<lparr>inbound_message_queue := [],
        inbound_buffer := framed [sample_data]\<rparr>)))"
  have act: "is_active 0 ?s" by (simp add: is_active_def heard_recently_def secs_def)
  have rm: "recv_message 0 0 1 (frame sample_data) ?s =
      update_inbound_last_timestamp_to_now 0 (update_inbound_stream ?t)"
    by (rule recv_message_next [OF _ _ act dq]) (simp_all add: stream_defs)
  have t: "inbound_buffer ?t = framed [sample_data]" "inbound_stream ?t = []"
    by (simp_all add: remove_sent_messages_from_queue_def stream_defs)
  have "inbound_stream (receive_all [(0, 0, 1, frame sample_data)] ?s) = sample_data"
    using update_inbound_stream_framed(1) [OF t(1)] t(2)
    unfolding receive_all.simps rm by (simp add: update_inbound_last_timestamp_to_now_def sample_data_def)
  with reader_is_woken [OF pr, of "[(0, 0, 1, frame sample_data)]"] pr show ?thesis
    by (auto simp: sample_data_def)
qed

subsection \<open>The wire\<close>

text \<open>
  C23: A message survives the wire: encoding always returns, and what it returns decodes, at any
  other node, to the same numbers, stream id and data, with the public part of the sender's
  address (its owner keys and DHT status stay home) and a signature of the data that verifies
  under the sender's public key.
\<close>

theorem message_roundtrip:
  assumes "wire_laws x" and "vld0_address a"
  shows "\<exists>w sg. encode_message x r k sid a d kp = Return w \<and>
    decode_message x w = Return (Inr (r, k, sid, public_part a, d, sg)) \<and>
    verify_signature x (Some (public_key x kp)) d sg"
proof -
  have laws: "payload_law x" "key_text_law x" "multiaddr_law x" "signature_law x" "signing_law x"
    using assms(1) by (simp_all add: wire_laws_def)
  obtain sg where sg: "sign x kp d = Some sg" using laws(5) by (auto simp: signing_law_def)
  obtain w where w: "encode_message x r k sid a d kp = Return w"
    using encode_message_Return [OF laws(3)] by blast
  with decode_encode_message [OF laws(1-4) assms(2) sg w] show ?thesis by blast
qed

lemma message_roundtrip_witness:
  "\<exists>w sg. encode_message sample_ext 3 4 5 (Safe (CryptoTyped VLD0 (RecordKey [3]))
       (Some (KeyPair [4] [5])) (DHTActive 9)) [1, 2] (Keypair [7]) = Return w \<and>
     decode_message sample_ext w =
       Return (Inr (3, 4, 5, Safe (CryptoTyped VLD0 (RecordKey [3])) None DHTNone, [1, 2], sg))"
  using message_roundtrip [OF sample_wire_laws, of "Safe (CryptoTyped VLD0 (RecordKey [3]))
      (Some (KeyPair [4] [5])) (DHTActive 9)" 3 4 5 "[1, 2]" "Keypair [7]"]
  by auto

end
