(* ===== verification/Address_Claims.thy ===== *)
theory Address_Claims
  imports Address Errors Sample_Node
begin

text \<open>
  The promises of the addresses (\<open>src/src/address.rs\<close>): their texts, publishing and resolving
  through the DHT, and the order that decides roles; and of the error texts
  (\<open>src/src/errors.rs\<close>).
\<close>

text \<open>
  C34: An address survives its text: every address the program makes turns into a multiaddr
  without a panic, the multiaddr parses back to the public part of the address, and every
  address parsed from any text is such a public part.
\<close>

theorem address_text_roundtrip:
  assumes "key_text_law x" and "multiaddr_law x" and "vld0_address a"
  shows "(\<exists>m. to_multiaddr x a = Return m \<and> try_from_multiaddr x m = Inr (public_part a)) \<and>
    (\<forall>t b. try_from_string x t = Inr b \<longrightarrow> vld0_address b \<and> public_part b = b)"
proof
  obtain m where "to_multiaddr x a = Return m" "multiaddr_to_string x m = address_text x a"
    using to_multiaddr_Return [OF assms(2)] by blast
  then show "\<exists>m. to_multiaddr x a = Return m \<and> try_from_multiaddr x m = Inr (public_part a)"
    using try_from_string_address_text [OF assms(1,3)] by (auto simp: try_from_multiaddr_def)
qed (blast dest: try_from_string_canonical)

definition sample_safe :: Address where
  "sample_safe = Safe (CryptoTyped VLD0 (RecordKey [3])) (Some (KeyPair [4] [5])) (DHTActive 0)"

lemma address_text_roundtrip_witness:
  "\<exists>m. to_multiaddr sample_ext sample_safe = Return m \<and>
     try_from_multiaddr sample_ext m = Inr (Safe (CryptoTyped VLD0 (RecordKey [3])) None DHTNone)"
  using address_text_roundtrip [OF sample_key_text_law sample_multiaddr_law, of sample_safe]
  by (simp add: sample_safe_def)

text \<open>
  C33: A republished address resolves to the route its publisher keeps. A republish succeeds
  only for a safe address whose owner keys the node has; the blob of the private route it has
  just created, and nothing else, is written to the address's record under those keys, and the
  target the publisher keeps is the import of that blob. Another node whose DHT holds what was
  written, and whose import of routes agrees with the publisher's, resolves the public part of
  the address to that same target, and writes nothing.
\<close>

theorem republished_address_resolves:
  fixes api api' :: veilid_api
  assumes "update_safe api a = (Inr target, calls)"
    and "routing_context api'"
    and "\<And>k v kp. SetDht k v kp \<in> set calls \<Longrightarrow>
      open_dht_record api' k None \<and> get_dht_value api' k = Some (Some v)"
    and "\<And>v. import_remote_private_route api' v = import_remote_private_route api v"
  shows "(\<exists>key owner st route_id blob route. a = Safe key (Some owner) st \<and>
      new_custom_private_route api = Some (route_id, blob) \<and>
      import_remote_private_route api blob = Some route \<and> target = PrivateRoute route \<and>
      calls = [NewPrivateRoute, OpenDht key (Some owner), SetDht key blob (Some owner), ImportRoute blob]) \<and>
    (\<exists>reads. address_to_target api' (public_part a) = (Some target, reads) \<and>
      (\<forall>k v kp. SetDht k v kp \<notin> set reads))"
proof -
  obtain key owner st route_id blob route where u: "a = Safe key (Some owner) st"
    "target = PrivateRoute route" "new_custom_private_route api = Some (route_id, blob)"
    "import_remote_private_route api blob = Some route"
    "calls = [NewPrivateRoute, OpenDht key (Some owner), SetDht key blob (Some owner), ImportRoute blob]"
    using update_safe_Inr [OF assms(1)] by blast
  have "open_dht_record api' key None \<and> get_dht_value api' key = Some (Some blob)"
    by (rule assms(3) [of key blob "Some owner"]) (simp add: u(5))
  then have "address_to_target api' (public_part a) =
      (Some target, [OpenDht key None, GetDht key, ImportRoute blob])"
    using assms(2,4) u(1,2,4) by simp
  with u show ?thesis by auto
qed

lemma republished_address_resolves_witness:
  "fst (address_to_target (sample_api\<lparr>get_dht_value := (\<lambda>k. Some (Some [2]))\<rparr>) (public_part sample_safe)) =
     Some (PrivateRoute [2])"
proof -
  have eq: "update_safe sample_api sample_safe = (Inr (PrivateRoute [2]),
     [NewPrivateRoute, OpenDht (CryptoTyped VLD0 (RecordKey [3])) (Some (KeyPair [4] [5])),
      SetDht (CryptoTyped VLD0 (RecordKey [3])) [2] (Some (KeyPair [4] [5])), ImportRoute [2]])"
    by (simp add: sample_api_def sample_safe_def Let_def)
  let ?api = "sample_api\<lparr>get_dht_value := (\<lambda>k. Some (Some [2]))\<rparr>"
  have "\<exists>reads. address_to_target ?api (public_part sample_safe) = (Some (PrivateRoute [2]), reads) \<and>
      (\<forall>k v kp. SetDht k v kp \<notin> set reads)"
    by (rule republished_address_resolves [OF eq, THEN conjunct2])
      (auto simp: sample_api_def)
  then show ?thesis by (metis fst_conv)
qed

text \<open>
  Every error has a text, and the two constructors that wrap another error are the only
  ones with a source; but two different errors print the same text: a missing stream claims
  that the multiaddr is not a unix address.
\<close>

lemma error_texts:
  "(error_source e \<noteq> None) = ((\<exists>i. e = IoError i) \<or> (\<exists>a. e = VeilidApiError a)) \<and>
   error_display e \<noteq> [] \<and>
   error_display StreamNotFound = error_display InvalidMultiaddr \<and>
   error_display StreamNotFound = ''Multiaddr is not a unix formatted address''"
  using error_source_iff [of e] by (cases e) (simp_all add: debug_string_def)

end
