(* ===== verification/Config_Lookup.thy ===== *)
theory Config_Lookup
  imports Veilid_Types
begin

text \<open>
  \<open>src/src/settings.rs\<close>: the callback that feeds veilid-core its configuration. The table of
  keys with their types, the settings file that is created on first use, the walk along a
  dotted key, the conversions, and the node's key pair kept in a file. The TOML parser, key
  texts and key generation are library code: a record of functions (\<open>config_ops\<close>) over the
  parser's own value type. The directory and its files are the state.
\<close>

subsection \<open>The table\<close>

datatype ValueType = Str | Bool | OptString | U32 | U8 | OptU32 | VecString | VecFourCC

definition CONFIG_TABLE :: "(string \<times> ValueType) list" where
  "CONFIG_TABLE = [
     (''program_name'', Str),
     (''namespace'', Str),
     (''logging.api.enabled'', Bool),
     (''logging.api.level'', Str),
     (''capabilities.disable'', VecFourCC),
     (''block_store.delete'', Bool),
     (''protected_store.allow_insecure_fallback'', Bool),
     (''protected_store.always_use_insecure_storage'', Bool),
     (''protected_store.delete'', Bool),
     (''protected_store.device_encryption_key_password'', Str),
     (''protected_store.new_device_encryption_key_password'', OptString),
     (''table_store.delete'', Bool),
     (''network.application.http.enabled'', Bool),
     (''network.application.http.listen_address'', Str),
     (''network.application.http.path'', Str),
     (''network.application.http.url'', OptString),
     (''network.application.https.enabled'', Bool),
     (''network.application.https.listen_address'', Str),
     (''network.application.https.path'', Str),
     (''network.application.https.url'', OptString),
     (''network.client_whitelist_timeout_ms'', U32),
     (''network.client_allowlist_timeout_ms'', U32),
     (''network.connection_initial_timeout_ms'', U32),
     (''network.connection_inactivity_timeout_ms'', U32),
     (''network.detect_address_changes'', Bool),
     (''network.dht.max_find_node_count'', U32),
     (''network.dht.resolve_node_timeout_ms'', U32),
     (''network.dht.resolve_node_count'', U32),
     (''network.dht.resolve_node_fanout'', U32),
     (''network.dht.get_value_timeout_ms'', U32),
     (''network.dht.get_value_count'', U32),
     (''network.dht.get_value_fanout'', U32),
     (''network.dht.set_value_timeout_ms'', U32),
     (''network.dht.set_value_count'', U32),
     (''network.dht.set_value_fanout'', U32),
     (''network.dht.member_watch_limit'', U32),
     (''network.dht.min_peer_count'', U32),
     (''network.dht.min_peer_refresh_time_ms'', U32),
     (''network.dht.max_watch_expiration_ms'', U32),
     (''network.dht.validate_dial_info_receipt_time_ms'', U32),
     (''network.dht.local_subkey_cache_size'', U32),
     (''network.dht.local_max_subkey_cache_memory_mb'', U32),
     (''network.dht.public_watch_limit'', U32),
     (''network.dht.remote_subkey_cache_size'', U32),
     (''network.dht.remote_max_records'', U32),
     (''network.dht.remote_max_subkey_cache_memory_mb'', U32),
     (''network.dht.remote_max_storage_space_mb'', U32),
     (''network.hole_punch_receipt_time_ms'', U32),
     (''network.max_connections_per_ip4'', U32),
     (''network.max_connections_per_ip6_prefix'', U32),
     (''network.max_connections_per_ip6_prefix_size'', U32),
     (''network.max_connection_frequency_per_min'', U32),
     (''network.network_key_password'', OptString),
     (''network.protocol.tcp.connect'', Bool),
     (''network.protocol.tcp.listen'', Bool),
     (''network.protocol.tcp.max_connections'', U32),
     (''network.protocol.tcp.listen_address'', Str),
     (''network.protocol.tcp.public_address'', OptString),
     (''network.protocol.udp.enabled'', Bool),
     (''network.protocol.udp.socket_pool_size'', U32),
     (''network.protocol.udp.listen_address'', Str),
     (''network.protocol.udp.public_address'', OptString),
     (''network.protocol.ws.connect'', Bool),
     (''network.protocol.ws.listen'', Bool),
     (''network.protocol.ws.listen_address'', Str),
     (''network.protocol.ws.max_connections'', U32),
     (''network.protocol.ws.path'', Str),
     (''network.protocol.ws.url'', OptString),
     (''network.protocol.wss.connect'', Bool),
     (''network.protocol.wss.listen'', Bool),
     (''network.protocol.wss.listen_address'', Str),
     (''network.protocol.wss.max_connections'', U32),
     (''network.protocol.wss.path'', Str),
     (''network.protocol.wss.url'', OptString),
     (''network.restricted_nat_retries'', U32),
     (''network.reverse_connection_receipt_time_ms'', U32),
     (''network.routing_table.bootstrap'', VecString),
     (''network.routing_table.limit_over_attached'', U32),
     (''network.routing_table.limit_fully_attached'', U32),
     (''network.routing_table.limit_attached_strong'', U32),
     (''network.routing_table.limit_attached_good'', U32),
     (''network.routing_table.limit_attached_weak'', U32),
     (''network.rpc.concurrency'', U32),
     (''network.rpc.default_route_hop_count'', U8),
     (''network.rpc.max_timestamp_behind_ms'', OptU32),
     (''network.rpc.max_timestamp_ahead_ms'', OptU32),
     (''network.rpc.max_route_hop_count'', U8),
     (''network.rpc.queue_size'', U32),
     (''network.rpc.timeout_ms'', U32),
     (''network.tls.certificate_path'', Str),
     (''network.tls.connection_initial_timeout_ms'', U32),
     (''network.tls.private_key_path'', Str),
     (''network.upnp'', Bool)]"

fun find_value_type :: "(string \<times> ValueType) list \<Rightarrow> string \<Rightarrow> ValueType option" where
  "find_value_type [] key = None"
| "find_value_type ((entry_key, entry_value) # rest) key =
     (if entry_key = key then Some entry_value else find_value_type rest key)"

definition get_value_type :: "string \<Rightarrow> string + ValueType" where
  "get_value_type key = (case find_value_type CONFIG_TABLE key of
       Some t \<Rightarrow> Inr t
     | None \<Rightarrow> Inl (''get_value_type | key not found '' @ [CHR 39] @ key @ [CHR 39]))"

subsection \<open>Parameters and files\<close>

text \<open>
  \<open>as_integer\<close> yields an \<open>i64\<close>. The three error fields are what the file operations report
  when they fail, \<open>None\<close> when they succeed.
\<close>

record 'v config_ops =
  toml_parse :: "string \<Rightarrow> string + 'v"
  toml_get :: "'v \<Rightarrow> string \<Rightarrow> 'v option"
  as_str :: "'v \<Rightarrow> string option"
  as_bool :: "'v \<Rightarrow> bool option"
  as_integer :: "'v \<Rightarrow> 64 word option"
  as_array :: "'v \<Rightarrow> 'v list option"
  crypto_kind :: "string \<Rightarrow> string option"
  keypair_parse :: "string \<Rightarrow> KeyPair option"
  keypair_to_string :: "KeyPair \<Rightarrow> string"
  generate_keypair :: "KeyPair option"
  default_text :: string
  create_dir_error :: "string option"
  create_file_error :: "string option"
  write_error :: "string option"
  readable :: bool

record config_files =
  settings_file :: "string option"
  keys_file :: "string option"

text \<open>The boxed \<open>dyn Any\<close> the callback returns, by its concrete type.\<close>

datatype config_value =
    AnyString string
  | AnyBool bool
  | AnyOptString "string option"
  | AnyU32 u32
  | AnyU8 byte
  | AnyOptU32 "u32 option"
  | AnyVecString "string list"
  | AnyVecFourCC "string list"
  | AnyNodeIds "bytes CryptoTyped list"
  | AnyNodeSecrets "bytes CryptoTyped list"

subsection \<open>The key pair\<close>

text \<open>\<open>str::trim\<close> on the ASCII text of a key file.\<close>

definition is_blank :: "char \<Rightarrow> bool" where
  "is_blank c \<longleftrightarrow> of_char c = (32 :: nat) \<or> (9 \<le> (of_char c :: nat) \<and> (of_char c :: nat) \<le> 13)"

definition trim :: "string \<Rightarrow> string" where
  "trim s = rev (dropWhile is_blank (rev (dropWhile is_blank s)))"

definition manage_keypair :: "'v config_ops \<Rightarrow> config_files \<Rightarrow> KeyPair option run \<times> config_files" where
  "manage_keypair ops fs =
     (let read_pair = (case keys_file fs of
            Some text \<Rightarrow> (if readable ops then keypair_parse ops (trim text) else None)
          | None \<Rightarrow> None);
          (key_pair, fs1) = (case read_pair of
            Some kp \<Rightarrow> (Some kp, fs)
          | None \<Rightarrow>
              (case generate_keypair ops of
                 Some kp \<Rightarrow> (Some kp,
                   if write_error ops = None
                   then fs\<lparr>keys_file := Some (keypair_to_string ops kp)\<rparr> else fs)
               | None \<Rightarrow> (None, fs)))
      in case key_pair of
           Some kp \<Rightarrow> (Return (Some kp), fs1)
         | None \<Rightarrow> (Panic ''not yet implemented'', fs1))"

subsection \<open>Looking a key up\<close>

text \<open>The loop over the parts of the key: \<open>None\<close> is the early return with an error.\<close>

fun walk :: "'v config_ops \<Rightarrow> 'v option \<Rightarrow> string list \<Rightarrow> 'v option option" where
  "walk ops current [] = Some current"
| "walk ops (Some v) (part # parts) = walk ops (toml_get ops v part) parts"
| "walk ops None (part # parts) = None"

definition not_found :: "string \<Rightarrow> string" where
  "not_found key = ''Config key '' @ [CHR 39] @ key @ [CHR 39] @ '' not found in TOML''"

definition filter_map :: "('a \<Rightarrow> 'b option) \<Rightarrow> 'a list \<Rightarrow> 'b list" where
  "filter_map f xs = map the (filter (\<lambda>y. y \<noteq> None) (map f xs))"

definition convert_value :: "'v config_ops \<Rightarrow> ValueType \<Rightarrow> 'v \<Rightarrow> string + config_value" where
  "convert_value ops t v = (case t of
       Str \<Rightarrow> (case as_str ops v of
           Some s \<Rightarrow> Inr (AnyString s) | None \<Rightarrow> Inl ''Expected a string value in TOML'')
     | Bool \<Rightarrow> (case as_bool ops v of
           Some b \<Rightarrow> Inr (AnyBool b) | None \<Rightarrow> Inl ''Expected a boolean value in TOML'')
     | OptString \<Rightarrow> (case as_str ops v of
           Some s \<Rightarrow> (if s = [] then Inr (AnyOptString None) else Inr (AnyOptString (Some s)))
         | None \<Rightarrow> Inr (AnyOptString None))
     | U32 \<Rightarrow> (case as_integer ops v of
           Some i \<Rightarrow> Inr (AnyU32 (ucast i)) | None \<Rightarrow> Inl ''Expected a u32 value in TOML'')
     | U8 \<Rightarrow> (case as_integer ops v of
           Some i \<Rightarrow> Inr (AnyU8 (ucast i)) | None \<Rightarrow> Inl ''Expected a u8 value in TOML'')
     | OptU32 \<Rightarrow> (case as_integer ops v of
           Some i \<Rightarrow> Inr (AnyOptU32 (Some (ucast i))) | None \<Rightarrow> Inr (AnyOptU32 None))
     | VecString \<Rightarrow> (case as_array ops v of
           Some arr \<Rightarrow> Inr (AnyVecString (filter_map (as_str ops) arr))
         | None \<Rightarrow> Inl ''Expected an array of strings in TOML'')
     | VecFourCC \<Rightarrow> (case as_array ops v of
           Some arr \<Rightarrow> Inr (AnyVecFourCC (filter_map (crypto_kind ops) (filter_map (as_str ops) arr)))
         | None \<Rightarrow> Inl ''Expected an array of strings for VecFourCC in TOML''))"

text \<open>A key without a value: the node's keys and the three store directories have defaults.\<close>

definition missing_value ::
  "'v config_ops \<Rightarrow> string \<Rightarrow> string \<Rightarrow> config_files \<Rightarrow>
     (string + config_value) run \<times> config_files" where
  "missing_value ops ident key fs =
     (if key = ''network.routing_table.node_id'' then
        (case manage_keypair ops fs of
           (Return (Some kp), fs1) \<Rightarrow> (Return (Inr (AnyNodeIds [CryptoTyped VLD0 (kp_key kp)])), fs1)
         | (Return None, fs1) \<Rightarrow> (Return (Inl ''Failed to retreive keypair''), fs1)
         | (Panic e, fs1) \<Rightarrow> (Panic e, fs1))
      else if key = ''network.routing_table.node_id_secret'' then
        (case manage_keypair ops fs of
           (Return (Some kp), fs1) \<Rightarrow> (Return (Inr (AnyNodeSecrets [CryptoTyped VLD0 (kp_secret kp)])), fs1)
         | (Return None, fs1) \<Rightarrow> (Return (Inl ''Failed to retreive keypair''), fs1)
         | (Panic e, fs1) \<Rightarrow> (Panic e, fs1))
      else if key = ''protected_store.directory''
      then (Return (Inr (AnyString (''./.veilid/'' @ ident @ ''/protected''))), fs)
      else if key = ''block_store.directory''
      then (Return (Inr (AnyString (''./.veilid/'' @ ident @ ''/block''))), fs)
      else if key = ''table_store.directory''
      then (Return (Inr (AnyString (''./.veilid/'' @ ident @ ''/table''))), fs)
      else (Return (Inl (not_found key)), fs))"

text \<open>The lookup in a parsed document.\<close>

definition lookup_value ::
  "'v config_ops \<Rightarrow> string \<Rightarrow> 'v \<Rightarrow> string \<Rightarrow> config_files \<Rightarrow>
     (string + config_value) run \<times> config_files" where
  "lookup_value ops ident document key fs =
     (case walk ops (Some document) (split_on (CHR ''.'') key) of
        None \<Rightarrow> (Return (Inl (not_found key)), fs)
      | Some None \<Rightarrow> missing_value ops ident key fs
      | Some (Some v) \<Rightarrow>
          (case get_value_type key of
             Inl e \<Rightarrow> (Return (Inl e), fs)
           | Inr t \<Rightarrow> (Return (convert_value ops t v), fs)))"

text \<open>
  \<open>lookup_config\<close> for the node whose peer id prints as \<open>peer\<close>: its directory is named by the
  text from byte 44 on, and slicing a shorter text panics.
\<close>

definition lookup_config ::
  "'v config_ops \<Rightarrow> string \<Rightarrow> string \<Rightarrow> config_files \<Rightarrow>
     (string + config_value) run \<times> config_files" where
  "lookup_config ops peer key fs =
     (if length peer < 44 then (Panic ''slice index out of range'', fs)
      else let ident = drop 44 peer in
        (case create_dir_error ops of
           Some e \<Rightarrow> (Return (Inl (''Failed to create directory: '' @ e)), fs)
         | None \<Rightarrow>
             (let (failed, fs1) =
                (if settings_file fs = None then
                   (case create_file_error ops of
                      Some e \<Rightarrow> (Some (''Failed to create settings file: '' @ e), fs)
                    | None \<Rightarrow>
                        (case write_error ops of
                           Some e \<Rightarrow>
                             (Some (''Failed to write default settings to settings.toml: '' @ e),
                              fs\<lparr>settings_file := Some []\<rparr>)
                         | None \<Rightarrow> (None, fs\<lparr>settings_file := Some (default_text ops)\<rparr>)))
                 else (None, fs))
              in case failed of
                   Some e \<Rightarrow> (Return (Inl e), fs1)
                 | None \<Rightarrow>
                     (case (readable ops, settings_file fs1) of
                        (True, Some toml_str) \<Rightarrow>
                          (case toml_parse ops toml_str of
                             Inl e \<Rightarrow> (Return (Inl (''Failed to parse toml: '' @ e)), fs1)
                           | Inr document \<Rightarrow> lookup_value ops ident document key fs1)
                      | _ \<Rightarrow> (Return (Inl ''Failed to read settings.toml''), fs1)))))"

end
