(* ===== verification/Config_Default.thy ===== *)
theory Config_Default
  imports Config_Lookup
begin

text \<open>
  The settings the program ships (\<open>src/src/settings.toml\<close>) as a document over a concrete
  value type, and what the lookup gives on it and in general: every key of the table has a
  value of its type, integers are truncated, defaults need their table, the key pair is kept.
\<close>

subsection \<open>A document type\<close>

datatype toml =
    TString string
  | TInteger int
  | TBoolean bool
  | TArray "toml list"
  | TTable "(string \<times> toml) list"

fun toml_field :: "toml \<Rightarrow> string \<Rightarrow> toml option" where
  "toml_field (TTable entries) k = map_of entries k"
| "toml_field v k = None"

fun toml_str :: "toml \<Rightarrow> string option" where
  "toml_str (TString s) = Some s"
| "toml_str v = None"

fun toml_bool :: "toml \<Rightarrow> bool option" where
  "toml_bool (TBoolean b) = Some b"
| "toml_bool v = None"

fun toml_int :: "toml \<Rightarrow> 64 word option" where
  "toml_int (TInteger i) = Some (word_of_int i)"
| "toml_int v = None"

fun toml_array :: "toml \<Rightarrow> toml list option" where
  "toml_array (TArray vs) = Some vs"
| "toml_array v = None"

subsection \<open>The shipped settings\<close>

definition default_network_dht :: toml where
  "default_network_dht = TTable [
     (''max_find_node_count'', TInteger 20),
     (''resolve_node_timeout_ms'', TInteger 10000),
     (''resolve_node_count'', TInteger 1),
     (''resolve_node_fanout'', TInteger 4),
     (''get_value_timeout_ms'', TInteger 10000),
     (''get_value_count'', TInteger 3),
     (''get_value_fanout'', TInteger 4),
     (''set_value_timeout_ms'', TInteger 10000),
     (''set_value_count'', TInteger 5),
     (''set_value_fanout'', TInteger 4),
     (''member_watch_limit'', TInteger 8),
     (''min_peer_count'', TInteger 20),
     (''min_peer_refresh_time_ms'', TInteger 60000),
     (''max_watch_expiration_ms'', TInteger 600000),
     (''validate_dial_info_receipt_time_ms'', TInteger 2000),
     (''local_subkey_cache_size'', TInteger 128),
     (''local_max_subkey_cache_memory_mb'', TInteger 256),
     (''public_watch_limit'', TInteger 32),
     (''remote_subkey_cache_size'', TInteger 1024),
     (''remote_max_records'', TInteger 65536),
     (''remote_max_subkey_cache_memory_mb'', TInteger 64),
     (''remote_max_storage_space_mb'', TInteger 1000)]"

definition default_network_protocol :: toml where
  "default_network_protocol = TTable [
     (''tcp'', TTable [(''connect'', TBoolean True),
  (''listen'', TBoolean True),
  (''max_connections'', TInteger 32),
  (''listen_address'', TString ''''),
  (''public_address'', TString '''')]),
     (''udp'', TTable [(''enabled'', TBoolean True),
  (''socket_pool_size'', TInteger 0),
  (''listen_address'', TString ''''),
  (''public_address'', TString '''')]),
     (''ws'', TTable [(''connect'', TBoolean False),
  (''listen'', TBoolean False),
  (''listen_address'', TString ''''),
  (''max_connections'', TInteger 16),
  (''path'', TString ''ws''),
  (''url'', TString '''')]),
     (''wss'', TTable [(''connect'', TBoolean False),
  (''listen'', TBoolean False),
  (''max_connections'', TInteger 16),
  (''listen_address'', TString ''''),
  (''path'', TString ''ws''),
  (''url'', TString '''')])]"

definition default_network_rpc :: toml where
  "default_network_rpc = TTable [
     (''concurrency'', TInteger 0),
     (''default_route_hop_count'', TInteger 1),
     (''max_timestamp_behind_ms'', TInteger 10000),
     (''max_timestamp_ahead_ms'', TInteger 10000),
     (''max_route_hop_count'', TInteger 4),
     (''queue_size'', TInteger 1024),
     (''timeout_ms'', TInteger 5000)]"

definition default_network_routing_table :: toml where
  "default_network_routing_table = TTable [
     (''bootstrap'', TArray [TString ''bootstrap.veilid.net'']),
     (''limit_over_attached'', TInteger 64),
     (''limit_fully_attached'', TInteger 32),
     (''limit_attached_strong'', TInteger 16),
     (''limit_attached_good'', TInteger 8),
     (''limit_attached_weak'', TInteger 4)]"

definition default_network :: toml where
  "default_network = TTable [
     (''application'', TTable [(''http'', TTable [(''enabled'', TBoolean False),
  (''listen_address'', TString ''''),
  (''path'', TString ''app''),
  (''url'', TString '''')]),
  (''https'', TTable [(''enabled'', TBoolean False),
  (''listen_address'', TString ''''),
  (''path'', TString ''app''),
  (''url'', TString '''')])]),
     (''client_whitelist_timeout_ms'', TInteger 300000),
     (''client_allowlist_timeout_ms'', TInteger 300000),
     (''connection_initial_timeout_ms'', TInteger 2000),
     (''connection_inactivity_timeout_ms'', TInteger 60000),
     (''detect_address_changes'', TBoolean True),
     (''dht'', default_network_dht),
     (''hole_punch_receipt_time_ms'', TInteger 5000),
     (''max_connections_per_ip4'', TInteger 32),
     (''max_connections_per_ip6_prefix'', TInteger 32),
     (''max_connections_per_ip6_prefix_size'', TInteger 56),
     (''max_connection_frequency_per_min'', TInteger 128),
     (''network_key_password'', TString ''''),
     (''protocol'', default_network_protocol),
     (''restricted_nat_retries'', TInteger 3),
     (''reverse_connection_receipt_time_ms'', TInteger 5000),
     (''routing_table'', default_network_routing_table),
     (''rpc'', default_network_rpc),
     (''tls'', TTable [(''certificate_path'', TString ''./.veilid/cert''),
  (''connection_initial_timeout_ms'', TInteger 2000),
  (''private_key_path'', TString ''./.veilid/key'')]),
     (''upnp'', TBoolean False)]"

definition default_settings :: toml where
  "default_settings = TTable [
     (''program_name'', TString ''app''),
     (''namespace'', TString ''''),
     (''logging'', TTable [(''api'', TTable [(''enabled'', TBoolean True),
  (''level'', TString ''trace'')])]),
     (''capabilities'', TTable [(''disable'', TArray [])]),
     (''block_store'', TTable [(''delete'', TBoolean True)]),
     (''protected_store'', TTable [(''allow_insecure_fallback'', TBoolean True),
  (''always_use_insecure_storage'', TBoolean True),
  (''delete'', TBoolean True),
  (''device_encryption_key_password'', TString ''''),
  (''new_device_encryption_key_password'', TString '''')]),
     (''table_store'', TTable [(''delete'', TBoolean True)]),
     (''network'', default_network)]"

subsection \<open>The instance\<close>

text \<open>
  The instance parses one text, the shipped one; a key pair's text is its two halves as
  characters between letters that are never blank.
\<close>

definition pair_text :: "KeyPair \<Rightarrow> string" where
  "pair_text kp = ''k'' @ concat (map (\<lambda>b. [CHR ''x'', char_of (unat b), CHR ''y'']) (kp_key kp @ kp_secret kp)) @ ''e''"

definition sample_pair :: KeyPair where
  "sample_pair = KeyPair [1] [2]"

definition sample_ops :: "toml config_ops" where
  "sample_ops = \<lparr>
     toml_parse = (\<lambda>s. if s = ''defaults'' then Inr default_settings else Inl ''expected an equals''),
     toml_get = toml_field,
     as_str = toml_str,
     as_bool = toml_bool,
     as_integer = toml_int,
     as_array = toml_array,
     crypto_kind = (\<lambda>s. if length s = 4 then Some s else None),
     keypair_parse = (\<lambda>s. if s = pair_text sample_pair then Some sample_pair else None),
     keypair_to_string = pair_text,
     generate_keypair = Some sample_pair,
     default_text = ''defaults'',
     create_dir_error = None,
     create_file_error = None,
     write_error = None,
     readable = True\<rparr>"

definition no_files :: config_files where
  "no_files = \<lparr>settings_file = None, keys_file = None\<rparr>"

subsection \<open>Properties\<close>

fun has_type :: "config_value \<Rightarrow> ValueType \<Rightarrow> bool" where
  "has_type (AnyString s) t \<longleftrightarrow> t = Str"
| "has_type (AnyBool b) t \<longleftrightarrow> t = Bool"
| "has_type (AnyOptString s) t \<longleftrightarrow> t = OptString"
| "has_type (AnyU32 n) t \<longleftrightarrow> t = U32"
| "has_type (AnyU8 n) t \<longleftrightarrow> t = U8"
| "has_type (AnyOptU32 n) t \<longleftrightarrow> t = OptU32"
| "has_type (AnyVecString ss) t \<longleftrightarrow> t = VecString"
| "has_type (AnyVecFourCC ks) t \<longleftrightarrow> t = VecFourCC"
| "has_type (AnyNodeIds ks) t \<longleftrightarrow> False"
| "has_type (AnyNodeSecrets ks) t \<longleftrightarrow> False"

definition default_entry_ok :: "string \<times> ValueType \<Rightarrow> bool" where
  "default_entry_ok e = (case walk sample_ops (Some default_settings) (split_on (CHR ''.'') (fst e)) of
     Some (Some v) \<Rightarrow> (case convert_value sample_ops (snd e) v of
         Inr c \<Rightarrow> has_type c (snd e)
       | Inl err \<Rightarrow> False)
   | _ \<Rightarrow> False)"

lemma table_keys_distinct: "distinct (map fst CONFIG_TABLE)"
  by (simp add: CONFIG_TABLE_def)

lemma default_entries_ok: "list_all default_entry_ok CONFIG_TABLE"
  by code_simp

lemma find_value_type_map_of: "find_value_type table key = map_of table key"
  by (induction table key rule: find_value_type.induct) auto

lemma get_value_type_table: "(key, t) \<in> set CONFIG_TABLE \<Longrightarrow> get_value_type key = Inr t"
  using map_of_eq_Some_iff [OF table_keys_distinct, of key t]
  by (simp add: get_value_type_def find_value_type_map_of)

text \<open>
  C36: With the shipped settings every key of the table is served with a value of its type, on
  the first call, which also writes the settings file.
\<close>

theorem default_settings_complete:
  assumes "(key, t) \<in> set CONFIG_TABLE" and "44 \<le> length peer" and "settings_file fs = None"
  shows "\<exists>c. lookup_config sample_ops peer key fs =
      (Return (Inr c), fs\<lparr>settings_file := Some (default_text sample_ops)\<rparr>) \<and> has_type c t"
proof -
  have ok: "default_entry_ok (key, t)"
    using default_entries_ok assms(1) by (simp add: list_all_iff)
  then obtain v c where v: "walk sample_ops (Some default_settings) (split_on (CHR ''.'') key) = Some (Some v)"
    and c: "convert_value sample_ops t v = Inr c" "has_type c t"
    by (auto simp: default_entry_ok_def split: option.splits sum.splits)
  then have "lookup_value sample_ops ident default_settings key fs' = (Return (Inr c), fs')"
    for ident fs' by (simp add: lookup_value_def get_value_type_table [OF assms(1)])
  moreover have "toml_parse sample_ops (default_text sample_ops) = Inr default_settings"
    "create_dir_error sample_ops = None" "create_file_error sample_ops = None"
    "write_error sample_ops = None" "readable sample_ops"
    by (simp_all add: sample_ops_def)
  ultimately show ?thesis
    using assms(2,3) c(2) by (simp add: lookup_config_def Let_def)
qed

lemma default_settings_complete_witness:
  "\<exists>c. lookup_config sample_ops (replicate 52 (CHR ''p'')) ''network.upnp'' no_files =
      (Return (Inr c), no_files\<lparr>settings_file := Some (default_text sample_ops)\<rparr>) \<and> has_type c Bool"
  by (rule default_settings_complete) (simp_all add: CONFIG_TABLE_def no_files_def)

text \<open>
  C37: An integer setting is truncated to its width without a check: a \<open>u32\<close> or \<open>u8\<close> key never
  reports an integer out of range, it takes the value modulo \<open>2^32\<close> or \<open>2^8\<close>.
\<close>

theorem integers_truncated:
  assumes "as_integer ops v = Some i"
  shows "(\<exists>n. convert_value ops U32 v = Inr (AnyU32 n) \<and> unat n = unat i mod 4294967296) \<and>
    (\<exists>n. convert_value ops U8 v = Inr (AnyU8 n) \<and> unat n = unat i mod 256)"
proof -
  have "unat (ucast i :: u32) = unat i mod 4294967296" "unat (ucast i :: byte) = unat i mod 256"
    by (simp_all add: unsigned_ucast_eq unsigned_take_bit_eq take_bit_eq_mod)
  with assms show ?thesis by (simp add: convert_value_def)
qed

lemma integers_truncated_witness:
  "\<exists>n. convert_value sample_ops U32 (TInteger 4294967301) = Inr (AnyU32 n) \<and> unat n = 5"
  using integers_truncated [of sample_ops "TInteger 4294967301" "word_of_int 4294967301"]
  by (simp add: sample_ops_def)

text \<open>
  C38: The store directories have a default only below a table that exists: without a
  \<open>protected_store\<close> table the walk ends early and the key is reported as not found; with the
  table but without the entry the directory under the node's own name is returned.
\<close>

theorem store_directory_default:
  assumes "part \<in> {''protected'', ''block'', ''table''}"
  shows "lookup_value ops ident document (part @ ''_store.directory'') fs =
    (case toml_get ops document (part @ ''_store'') of
       None \<Rightarrow> (Return (Inl (not_found (part @ ''_store.directory''))), fs)
     | Some v \<Rightarrow>
         (if toml_get ops v ''directory'' = None
          then (Return (Inr (AnyString (''./.veilid/'' @ ident @ ''/'' @ part))), fs)
          else (Return (Inl (''get_value_type | key not found '' @ [CHR 39] @
                  part @ ''_store.directory'' @ [CHR 39])), fs)))"
proof -
  have s: "split_on (CHR ''.'') (part @ ''_store.directory'') = [part @ ''_store'', ''directory'']"
    using assms by auto
  have "(part @ ''_store.directory'', t) \<notin> set CONFIG_TABLE" for t
    using assms by (auto simp: CONFIG_TABLE_def)
  then have "get_value_type (part @ ''_store.directory'') =
      Inl (''get_value_type | key not found '' @ [CHR 39] @ (part @ ''_store.directory'') @ [CHR 39])"
    using map_of_SomeD [of CONFIG_TABLE "part @ ''_store.directory''"]
    by (cases "map_of CONFIG_TABLE (part @ ''_store.directory'')")
      (auto simp: get_value_type_def find_value_type_map_of)
  then show ?thesis
    using assms by (auto simp: lookup_value_def s missing_value_def not_found_def split: option.split)
qed

lemma store_directory_default_witness:
  "lookup_value sample_ops ''id'' default_settings ''protected_store.directory'' no_files =
     (Return (Inr (AnyString ''./.veilid/id/protected'')), no_files)"
proof -
  obtain v where "toml_get sample_ops default_settings ''protected_store'' = Some v"
    "toml_get sample_ops v ''directory'' = None"
    by (simp add: sample_ops_def default_settings_def)
  then show ?thesis
    using store_directory_default [of "''protected''" sample_ops "''id''" default_settings no_files]
    by simp
qed

text \<open>
  C35: The node keeps its identity: once a key pair was made and its file written, every later
  lookup of the node's id or secret gives the halves of that same pair, whatever a new
  generation would give.
\<close>

theorem identity_is_kept:
  assumes "keypair_parse ops (trim (keypair_to_string ops kp)) = Some kp" and "readable ops"
    and "write_error ops = None" and "keys_file fs = None" and "generate_keypair ops = Some kp"
  shows "\<exists>fs1. missing_value ops ident ''network.routing_table.node_id'' fs =
      (Return (Inr (AnyNodeIds [CryptoTyped VLD0 (kp_key kp)])), fs1) \<and>
    (\<forall>g. missing_value (ops\<lparr>generate_keypair := g\<rparr>) ident ''network.routing_table.node_id'' fs1 =
      (Return (Inr (AnyNodeIds [CryptoTyped VLD0 (kp_key kp)])), fs1)) \<and>
    (\<forall>g. missing_value (ops\<lparr>generate_keypair := g\<rparr>) ident ''network.routing_table.node_id_secret'' fs1 =
      (Return (Inr (AnyNodeSecrets [CryptoTyped VLD0 (kp_secret kp)])), fs1))"
  using assms by (simp add: missing_value_def manage_keypair_def)

lemma identity_is_kept_witness:
  "\<exists>fs1. missing_value sample_ops ''id'' ''network.routing_table.node_id'' no_files =
      (Return (Inr (AnyNodeIds [CryptoTyped VLD0 [1]])), fs1)"
proof -
  have "trim (pair_text sample_pair) = pair_text sample_pair"
    by (simp add: trim_def pair_text_def sample_pair_def is_blank_def)
  with identity_is_kept [of sample_ops sample_pair no_files "''id''"]
  show ?thesis by (auto simp: sample_ops_def no_files_def sample_pair_def)
qed

end
