(* ===== verification/Spec2Isabelle.thy ===== *)
theory Spec2Isabelle
  imports Delivery_Limits Delivery_Progress Delivery_Refinement Handshake Listener_Runs
    Listener_Expiry Stream_Claims Address_Claims Config_Default
begin

text \<open>
  A verification development for \<open>libp2p-transport-veilid\<close>, a transport that carries libp2p
  connections over the application messages of Veilid nodes. Veilid delivers a message at most
  once or loses it, in any order; the transport makes byte streams of them.

  The program. \<open>lib.rs\<close> is the transport libp2p drives: it starts the node, dials, hands out
  events and runs a heartbeat every five seconds. \<open>listener.rs\<close> owns the streams, a map from
  remote addresses to streams, and the node's own address and route; it turns each update of the
  node into changes of them (\<open>convert_update\<close>, one spawned task per update). \<open>stream.rs\<close> is one
  stream: it frames writes with their length, cuts the bytes into numbered signed messages, keeps
  and resends them until they are acknowledged, and at the other end orders messages, cuts the
  bytes at the lengths and wakes the reader. \<open>connection.rs\<close> is the reader's and writer's side
  of a stream. \<open>address.rs\<close> gives nodes their texts and publishes and resolves routes through the
  DHT. \<open>settings.rs\<close> answers the node's questions for its configuration. \<open>node_status.rs\<close>,
  \<open>utils.rs\<close>, \<open>errors.rs\<close> and \<open>stream_seq.rs\<close> are small parts of these. Dialer and listener meet
  by three control messages (DIAL, LISTEN, STATUS) whose data begin with that word; a node also
  sends itself a PING.

  The model, in the order of the imports. A struct is a record or a datatype with the fields'
  names where these are free (\<open>l_\<close>, \<open>t_\<close>, \<open>ns_\<close>, \<open>conn_\<close>, \<open>pl_\<close> else), a function has its own
  name.

  \<^item> \<open>Prelude\<close>: words, panics (\<open>run\<close>: \<open>Return\<close> or \<open>Panic\<close>), clock readings, and the \<open>HashMap\<close>
    interface as a locale, interpreted on association lists; their order stands for the map's
    iteration order.
  \<^item> \<open>Veilid_Types\<close>: the opaque data of the libraries and their functions. The record \<open>ext\<close> holds
    the pure ones (signatures, protobuf, key and multiaddr texts) with their laws as named
    predicates; the record \<open>veilid_api\<close> holds the answers of the node during one operation.
    \<open>Sample_Node\<close> gives an instance of \<open>ext\<close> that satisfies every law; witnesses run on it.
  \<^item> \<open>Address\<close> (\<open>address.rs\<close>), \<open>Errors\<close> (\<open>errors.rs\<close>), \<open>Stream_Seq\<close> (\<open>stream_seq.rs\<close>),
    \<open>Transport_Settings\<close> (the constants of \<open>lib.rs\<close>), \<open>Node_Status\<close> (\<open>node_status.rs\<close>, \<open>utils.rs\<close>).
  \<^item> \<open>Stream\<close> (the record of \<open>stream.rs\<close>, its setters and status predicates), \<open>Framing\<close> (the loop
    of \<open>update_inbound_stream\<close> and its inverse), \<open>Stream_Inbound\<close> (\<open>decode_message\<close>,
    \<open>recv_message\<close>, \<open>update_inbound_stream\<close>, \<open>read_inbound_stream\<close>,
    \<open>remove_sent_messages_from_queue\<close>), \<open>Stream_Outbound\<close> (\<open>insert_to_outbound_stream\<close>,
    \<open>generate_messages\<close>, \<open>encode_message\<close>, \<open>send_messages\<close>, the control messages),
    \<open>Connection\<close> (\<open>connection.rs\<close>).
  \<^item> \<open>Message_Type\<close>: the test of the message kind in \<open>convert_update\<close>, over the lossy UTF-8 text of
    the data. \<open>Listener_State\<close> (the record, operations as \<open>act\<close>: listener to result, listener
    and the calls made), \<open>Listener\<close> (\<open>create_stream\<close>, \<open>convert_update\<close> with every arm,
    \<open>get_next_event\<close>), \<open>Listener_Target\<close> (the node's own address and route: checks, republishing,
    pings), all of \<open>listener.rs\<close>.
  \<^item> \<open>Transport\<close> (\<open>lib.rs\<close>: \<open>listen_on\<close>, \<open>dial\<close>, \<open>poll\<close>, \<open>remove_listener\<close>, \<open>heartbeat\<close>).
  \<^item> \<open>Config_Lookup\<close> (\<open>settings.rs\<close>), \<open>Config_Default\<close> (\<open>settings.toml\<close> and the lookup on it).

  What is proved. The claims are numbered by importance.

  \<^item> Two nodes. \<open>Delivery\<close> runs the program's operations on two streams over a network that
    loses, delays, repeats and reorders messages and does not forge them. \<open>Delivery_Safety\<close> has
    the invariant and what follows: within the bounds below, what is read is a beginning of what
    was written (C1), nothing undelivered is dropped (C8), the receiver holds only sent data
    (C16). \<open>Delivery_Progress\<close>: one resend interval and one send put everything undelivered on the
    network, and every run in which it arrives in the order of its numbers at a live receiver
    delivers it (C2). \<open>Delivery_Refinement\<close>: a forward simulation of labelled steps, as a locale;
    every sequence of writes, reads and blocked reads of the code is one of a pair of byte pipes
    (C3). \<open>Delivery_Limits\<close> shows where the conditions are needed: data that begin like a control
    message (C10), a message boundary in a length header (C11), and that a sender which cuts each
    write before it accepts the next never makes one and is delivered in order (C25).
  \<^item> The listener. \<open>Packets\<close>: each kind of packet does in the listener what it does in the
    two-sided system, or nothing (C7, C13, C14). \<open>Handshake\<close>: dial and accept, through the code of
    both nodes, end in the initial state of that system (C4); of two dialers exactly one listens
    (C9). \<open>Listener_Runs\<close>: every event of a node as an inductive step relation, the invariant of
    every reachable state and which panics are left (C5, C6). \<open>Listener_Map\<close>: the map leads an
    address to the same stream, whose status does not go back, until a newer DIAL replaces it
    (C15). \<open>Listener_Expiry\<close>: no update revives an expired stream (C39).
  \<^item> The transport and its timers: \<open>Heartbeat\<close> (C12), \<open>Transport\<close> (C27, C28), \<open>Listener_Target\<close>
    (C29 to C32).
  \<^item> Components: \<open>Stream_Claims\<close> (C17 to C24, C26), \<open>Address_Claims\<close> (C33, C34),
    \<open>Config_Default\<close> (C35 to C38).

  Conditions and bounds. A stream numbers its messages from 1 in 32 bits, so the two-sided claims
  are about runs with fewer messages than that (\<open>few_chunks\<close>); C26 says what happens at the end.
  A length header has 32 bits, so writes are shorter (\<open>frames_ok\<close>). \<open>aligned\<close> says that no
  message boundary a receiver can come to cuts a header, and holds when each write is cut before
  the next one is accepted (C25); the code loses data without it (C11). Two panics depend on the
  surroundings: \<open>with_safety\<close> of the node is unwrapped, and \<open>VeilidStream::new\<close> unwraps the time
  since 1970 (\<open>stream_new\<close>, \<open>after_epoch\<close>). \<open>multiaddr_law\<close>, that the multiaddr library parses a
  text, is assumed of the texts the program makes only (\<open>/unix/s:\<close> and \<open>/unix/us:\<close> with a key). Messages carry at most 32623 bytes, below the limit of 32768 that
  \<open>send_messages\<close> enforces by a panic; early messages are kept in a window of 20. No loop needs
  fuel: each is a total function with a termination proof.

  Conventions. Locks are never poisoned and a handler runs without being interrupted; spawned
  tasks run one at a time, in any order. So \<open>create_stream\<close> is one step, where the code awaits the
  DHT between finding no stream and inserting one. A panic in a spawned task ends that task, with the
  changes it made so far; a panic in \<open>send_messages\<close>, which no reachable state has, is modelled
  without the sends spawned before it. One operation reads each clock once. Unchecked additions wrap, as in a
  release build. Clock readings are integers; the subtraction of a retry interval from an
  \<open>Instant\<close> is taken not to fall before the clock's start. \<open>usize\<close> is a natural number. Calls to the node are returned in the order they are
  made. Random numbers and the node's answers are arguments. The waker of a reader that is woken
  is recorded in the stream (\<open>wakes\<close>), which the code leaves to the runtime. \<open>update_local_address\<close>
  is spawned with \<open>spawn_local\<close>, which needs a local task set around the transport; it is taken
  to be there.

  Not modelled: \<open>build.rs\<close> (calls the protobuf generator); logging, \<open>Debug\<close> instances and the
  unused \<open>generate_random_u32\<close>; the capacity of the channel of results, which only delays tasks;
  the timer behind \<open>poll\<close>, whose due ticks are an argument; the layout of the file system, of which
  the model keeps the directory, the settings file and the key file; noise and yamux, which libp2p
  puts above the connection; everything the node does with the messages it is given.
\<close>

end
